theory Spec2Isabelle
  imports Main "HOL-Library.Word"
begin

unbundle bit_operations_syntax

section \<open>Platform and toolkit vocabulary\<close>

text \<open>
  The program is one C file, \<^verbatim>\<open>src/main.c\<close>. Everything it calls lives in two
  libraries whose sources are not part of it: the GUI toolkit (\<^verbatim>\<open>lv_*\<close>) and the
  windowing layer (\<^verbatim>\<open>SDL_*\<close>). The functions of \<^verbatim>\<open>main.c\<close> are translated
  one by one; a library call that only has an effect on the outside world is recorded,
  in order, in a list of \<open>call\<close>s, and a library call whose result the program uses
  takes that result from an explicit environment argument.
\<close>

type_synonym uint8 = "8 word"
type_synonym uint32 = "32 word"
type_synonym c_int = "32 word"

text \<open>
  Modelled from the spec: the toolkit's colour type \<^verbatim>\<open>lv_color_t\<close> and coordinate
  type \<^verbatim>\<open>lv_coord_t\<close> are declared in the toolkit's headers, which are absent. The
  specification fixes the colour as a 16-bit value in 5-6-5 channel layout (red in the
  top five bits, green in the middle six, blue in the low five); coordinates are the
  toolkit's 16-bit signed integers, read with \<open>sint\<close>.
\<close>

type_synonym lv_color_t = "16 word"
type_synonym lv_coord_t = "16 word"

record lv_area_t =
  x1 :: lv_coord_t
  y1 :: lv_coord_t
  x2 :: lv_coord_t
  y2 :: lv_coord_t

text \<open>An SDL event is represented by its \<^verbatim>\<open>type\<close> field, the only field the program reads.\<close>

type_synonym sdl_event = uint32

definition SDL_QUIT :: sdl_event where
  "SDL_QUIT = 0x100"

definition SDL_BUTTON_LMASK :: uint32 where
  "SDL_BUTTON_LMASK = 1"

definition SCREEN_WIDTH :: int where
  "SCREEN_WIDTH = 172"

definition SCREEN_HEIGHT :: int where
  "SCREEN_HEIGHT = 320"

definition INT_MAX :: int where
  "INT_MAX = 2147483647"

definition INT_MIN :: int where
  "INT_MIN = - 2147483648"

datatype call =
    Printf string
  | SDL_Init
  | SDL_CreateWindow string int int
  | SDL_CreateRenderer
  | SDL_RenderSetLogicalSize int int
  | SDL_PollEvent "sdl_event option"
  | SDL_SetRenderDrawColor uint8 uint8 uint8 uint8
  | SDL_RenderClear
  | SDL_RenderDrawPoint int int
  | SDL_RenderPresent
  | SDL_Delay nat
  | SDL_DestroyRenderer
  | SDL_DestroyWindow
  | SDL_Quit
  | Lv_init
  | Lv_disp_drv_register int int nat
  | Lv_indev_drv_register
  | Lv_timer_handler
  | Lv_disp_flush_ready

text \<open>
  Undefined behaviour of the C program is a value of the model: a null handle passed to
  the toolkit, a pool index that is not an object, a formatted string that did not fit
  its buffer, a read outside the pixel buffer, and signed overflow of an \<^verbatim>\<open>int\<close>.
\<close>

datatype error = NullHandle | BadHandle | Truncated | OutOfBounds | IntOverflow

section \<open>The display-flush callback\<close>

text \<open>
  Modelled from the spec: the channel accessors \<^verbatim>\<open>LV_COLOR_GET_R/G/B\<close> are macros
  of the absent toolkit headers; in 5-6-5 packing they read the five, six and five bits
  of the channel. The value is an unsigned bit-field, promoted to \<^verbatim>\<open>int\<close> where the
  program shifts it.
\<close>

definition LV_COLOR_GET_R :: "lv_color_t \<Rightarrow> c_int" where
  "LV_COLOR_GET_R c = ucast (drop_bit 11 c AND 0x1F)"

definition LV_COLOR_GET_G :: "lv_color_t \<Rightarrow> c_int" where
  "LV_COLOR_GET_G c = ucast (drop_bit 5 c AND 0x3F)"

definition LV_COLOR_GET_B :: "lv_color_t \<Rightarrow> c_int" where
  "LV_COLOR_GET_B c = ucast (c AND 0x1F)"

text \<open>
  The four arguments the inner loop of \<^verbatim>\<open>sdl_display_flush\<close> passes to
  \<^verbatim>\<open>SDL_SetRenderDrawColor\<close> for a pixel \<open>c\<close>: the three shifts are computed in
  \<^verbatim>\<open>int\<close> and converted to the \<^verbatim>\<open>Uint8\<close> parameters (\<open>ucast\<close> keeps the low
  eight bits); alpha is \<^verbatim>\<open>0xFF\<close>.
\<close>

definition rgba_of :: "lv_color_t \<Rightarrow> uint8 \<times> uint8 \<times> uint8 \<times> uint8" where
  "rgba_of c =
     (ucast (push_bit 3 (LV_COLOR_GET_R c)),
      ucast (push_bit 2 (LV_COLOR_GET_G c)),
      ucast (push_bit 3 (LV_COLOR_GET_B c)),
      0xFF)"

text \<open>The body of the inner loop for the pixel \<open>c\<close> at \<open>(x, y)\<close>.\<close>

definition draw_pixel :: "lv_color_t \<Rightarrow> int \<Rightarrow> int \<Rightarrow> call list" where
  "draw_pixel c x y =
     (case rgba_of c of
        (r, g, b, a) \<Rightarrow> [SDL_SetRenderDrawColor r g b a, SDL_RenderDrawPoint x y])"

text \<open>
  \<^verbatim>\<open>int idx = (y - area->y1) * (area->x2 - area->x1 + 1) + (x - area->x1)\<close>:
  the arithmetic is done in \<^verbatim>\<open>int\<close>; a product or sum outside its range is
  signed overflow.
\<close>

definition pixel_index :: "lv_area_t \<Rightarrow> int \<Rightarrow> int \<Rightarrow> int" where
  "pixel_index area x y =
     (y - sint (y1 area)) * (sint (x2 area) - sint (x1 area) + 1) + (x - sint (x1 area))"

definition int_ok :: "int \<Rightarrow> bool" where
  "int_ok v = (INT_MIN \<le> v \<and> v \<le> INT_MAX)"

text \<open>\<^verbatim>\<open>lv_color_t c = color_p[idx]\<close>, with the buffer as the list of its pixels.\<close>

definition read_pixel :: "lv_area_t \<Rightarrow> lv_color_t list \<Rightarrow> int \<Rightarrow> int \<Rightarrow> error + lv_color_t" where
  "read_pixel area color_p x y =
     (let idx = pixel_index area x y in
      if \<not> int_ok ((y - sint (y1 area)) * (sint (x2 area) - sint (x1 area) + 1)) \<or> \<not> int_ok idx
      then Inl IntOverflow
      else if idx < 0 \<or> int (length color_p) \<le> idx then Inl OutOfBounds
      else Inr (color_p ! nat idx))"

text \<open>The inner loop, \<^verbatim>\<open>for (int x = area->x1; x <= area->x2; x++)\<close>, from \<open>x\<close> on.\<close>

function flush_row :: "lv_area_t \<Rightarrow> lv_color_t list \<Rightarrow> int \<Rightarrow> int \<Rightarrow> error + call list" where
  "flush_row area color_p y x =
     (if x \<le> sint (x2 area) then
        (case read_pixel area color_p x y of
           Inl e \<Rightarrow> Inl e
         | Inr c \<Rightarrow>
             (case flush_row area color_p y (x + 1) of
                Inl e \<Rightarrow> Inl e
              | Inr tr \<Rightarrow> Inr (draw_pixel c x y @ tr)))
      else Inr [])"
  by pat_completeness auto
termination
  by (relation "measure (\<lambda>(area, color_p, y, x). nat (sint (x2 area) + 1 - x))") auto

text \<open>The outer loop, \<^verbatim>\<open>for (int y = area->y1; y <= area->y2; y++)\<close>, from \<open>y\<close> on.\<close>

function flush_rows :: "lv_area_t \<Rightarrow> lv_color_t list \<Rightarrow> int \<Rightarrow> error + call list" where
  "flush_rows area color_p y =
     (if y \<le> sint (y2 area) then
        (case flush_row area color_p y (sint (x1 area)) of
           Inl e \<Rightarrow> Inl e
         | Inr row \<Rightarrow>
             (case flush_rows area color_p (y + 1) of
                Inl e \<Rightarrow> Inl e
              | Inr tr \<Rightarrow> Inr (row @ tr)))
      else Inr [])"
  by pat_completeness auto
termination
  by (relation "measure (\<lambda>(area, color_p, y). nat (sint (y2 area) + 1 - y))") auto

declare flush_row.simps [simp del] flush_rows.simps [simp del]

text \<open>
  \<^verbatim>\<open>sdl_display_flush\<close>: both loops, then \<^verbatim>\<open>lv_disp_flush_ready(disp_drv)\<close>. The
  result is the list of calls it makes, in order.
\<close>

definition sdl_display_flush :: "lv_area_t \<Rightarrow> lv_color_t list \<Rightarrow> error + call list" where
  "sdl_display_flush area color_p =
     (case flush_rows area color_p (sint (y1 area)) of
        Inl e \<Rightarrow> Inl e
      | Inr tr \<Rightarrow> Inr (tr @ [Lv_disp_flush_ready]))"

text \<open>
  What a list of calls leaves on the presentation surface: each
  \<^verbatim>\<open>SDL_RenderDrawPoint\<close> writes the colour of the latest
  \<^verbatim>\<open>SDL_SetRenderDrawColor\<close> at its coordinate. \<open>writes\<close> lists the writes in order,
  starting from the draw colour \<open>cur\<close>.
\<close>

fun writes :: "uint8 \<times> uint8 \<times> uint8 \<times> uint8 \<Rightarrow> call list \<Rightarrow> ((int \<times> int) \<times> (uint8 \<times> uint8 \<times> uint8 \<times> uint8)) list" where
  "writes cur [] = []"
| "writes cur (SDL_SetRenderDrawColor r g b a # cs) = writes (r, g, b, a) cs"
| "writes cur (SDL_RenderDrawPoint x y # cs) = ((x, y), cur) # writes cur cs"
| "writes cur (c # cs) = writes cur cs"

text \<open>
  The width and height of the rectangle the callback is given, and its pixels in the
  order the two loops visit them, each with the buffer entry read for it.
\<close>

definition area_w :: "lv_area_t \<Rightarrow> int" where
  "area_w area = sint (x2 area) - sint (x1 area) + 1"

definition area_h :: "lv_area_t \<Rightarrow> int" where
  "area_h area = sint (y2 area) - sint (y1 area) + 1"

definition area_pixels :: "lv_area_t \<Rightarrow> lv_color_t list \<Rightarrow> (lv_color_t \<times> int \<times> int) list" where
  "area_pixels area color_p =
     concat (map (\<lambda>y. map (\<lambda>x. (color_p ! nat (pixel_index area x y), x, y))
                          [sint (x1 area)..sint (x2 area)])
       [sint (y1 area)..sint (y2 area)])"

section \<open>The input-read callback\<close>

datatype lv_indev_state_t = LV_INDEV_STATE_RELEASED | LV_INDEV_STATE_PRESSED

record lv_indev_data_t =
  point_x :: lv_coord_t
  point_y :: lv_coord_t
  state :: lv_indev_state_t

text \<open>
  Modelled from the spec: \<^verbatim>\<open>SDL_GetMouseState\<close> belongs to the platform layer, not
  to the program. It returns the button mask and the pointer position; the specification
  places that position in the presentation surface's native coordinate space, before any
  scaling, which is the window's. The window is created \<^verbatim>\<open>SCREEN_WIDTH * 2\<close> by
  \<^verbatim>\<open>SCREEN_HEIGHT * 2\<close> (see \<open>main\<close>).
\<close>

record mouse_sample =
  mouse_state :: uint32
  mouse_x :: c_int
  mouse_y :: c_int

text \<open>
  \<^verbatim>\<open>sdl_mouse_read\<close>. The call \<^verbatim>\<open>SDL_RenderGetLogicalSize(renderer, NULL, NULL)\<close>
  under the comment "Scale mouse coordinates back to logical size" passes no place for a
  result and changes nothing, so it has no counterpart here. The two \<^verbatim>\<open>int\<close>
  coordinates are stored into \<^verbatim>\<open>lv_coord_t\<close> fields (\<open>ucast\<close> keeps the low
  sixteen bits).
\<close>

definition sdl_mouse_read :: "mouse_sample \<Rightarrow> lv_indev_data_t \<Rightarrow> lv_indev_data_t" where
  "sdl_mouse_read m data =
     (let data1 =
        (if mouse_state m AND SDL_BUTTON_LMASK \<noteq> 0
         then data\<lparr>state := LV_INDEV_STATE_PRESSED\<rparr>
         else data\<lparr>state := LV_INDEV_STATE_RELEASED\<rparr>)
      in data1\<lparr>point_x := ucast (mouse_x m), point_y := ucast (mouse_y m)\<rparr>)"

text \<open>A pointer position inside the window, and a point of the logical display.\<close>

definition in_window :: "mouse_sample \<Rightarrow> bool" where
  "in_window m =
     (0 \<le> sint (mouse_x m) \<and> sint (mouse_x m) < SCREEN_WIDTH * 2 \<and>
      0 \<le> sint (mouse_y m) \<and> sint (mouse_y m) < SCREEN_HEIGHT * 2)"

definition in_logical_space :: "lv_indev_data_t \<Rightarrow> bool" where
  "in_logical_space data =
     (0 \<le> sint (point_x data) \<and> sint (point_x data) < SCREEN_WIDTH \<and>
      0 \<le> sint (point_y data) \<and> sint (point_y data) < SCREEN_HEIGHT)"

section \<open>The time formatter\<close>

text \<open>The fields of \<^verbatim>\<open>struct tm\<close> that the two format strings read.\<close>

record tm =
  tm_sec :: int
  tm_min :: int
  tm_hour :: int
  tm_mday :: int
  tm_mon :: int
  tm_year :: int
  tm_wday :: int

text \<open>
  A broken-down time as \<^verbatim>\<open>localtime\<close> produces it: every field in the range the
  C standard gives for it (seconds up to 60 for a leap second), the year an
  \<^verbatim>\<open>int\<close> counted from 1900.
\<close>

definition valid_tm :: "tm \<Rightarrow> bool" where
  "valid_tm t =
     (0 \<le> tm_sec t \<and> tm_sec t \<le> 60 \<and> 0 \<le> tm_min t \<and> tm_min t \<le> 59 \<and>
      0 \<le> tm_hour t \<and> tm_hour t \<le> 23 \<and> 1 \<le> tm_mday t \<and> tm_mday t \<le> 31 \<and>
      0 \<le> tm_mon t \<and> tm_mon t \<le> 11 \<and> 0 \<le> tm_wday t \<and> tm_wday t \<le> 6 \<and>
      INT_MIN \<le> tm_year t \<and> tm_year t \<le> INT_MAX)"










definition digit_char :: "nat \<Rightarrow> char" where
  "digit_char n = ''0123456789'' ! n"

fun dec_nat :: "nat \<Rightarrow> string" where
  "dec_nat n = (if n < 10 then [digit_char n] else dec_nat (n div 10) @ [digit_char (n mod 10)])"

declare dec_nat.simps [simp del]

definition dec_int :: "int \<Rightarrow> string" where
  "dec_int i = (if i < 0 then CHR ''-'' # dec_nat (nat (- i)) else dec_nat (nat i))"

text \<open>A two-digit, zero-padded field.\<close>

definition pad2 :: "nat \<Rightarrow> string" where
  "pad2 n = [digit_char (n div 10), digit_char (n mod 10)]"

definition wday_names :: "string list" where
  "wday_names = [''Sun'', ''Mon'', ''Tue'', ''Wed'', ''Thu'', ''Fri'', ''Sat'']"

definition mon_names :: "string list" where
  "mon_names = [''Jan'', ''Feb'', ''Mar'', ''Apr'', ''May'', ''Jun'',
                ''Jul'', ''Aug'', ''Sep'', ''Oct'', ''Nov'', ''Dec'']"

text \<open>
  An \<^verbatim>\<open>int\<close> sum as the machine leaves it: a value beyond \<^verbatim>\<open>INT_MAX\<close> or below
  \<^verbatim>\<open>INT_MIN\<close> comes back wrapped around, 2 to the 32 away.
\<close>

definition int_wrap :: "int \<Rightarrow> int" where
  "int_wrap v = (v + 2147483648) mod 4294967296 - 2147483648"

text \<open>
  Modelled from the spec: \<^verbatim>\<open>strftime\<close> belongs to the C library, not to the
  program. The specification describes the two strings as a zero-padded 24-hour
  \<^verbatim>\<open>HH:MM:SS\<close> and as abbreviated weekday, abbreviated month, zero-padded day of the
  month and year; the program never changes the locale, so the names are the English
  ones of the C locale. \<open>strftime_conv\<close> is one conversion specifier: a field outside
  its range, or a specifier the program does not use, has no defined result. The year
  of \<^verbatim>\<open>%Y\<close> is \<^verbatim>\<open>tm_year + 1900\<close> computed in \<^verbatim>\<open>int\<close>: for a \<^verbatim>\<open>tm_year\<close> within
  1900 of \<^verbatim>\<open>INT_MAX\<close> the sum wraps and a negative year is printed.
\<close>

definition field2 :: "int \<Rightarrow> int \<Rightarrow> int \<Rightarrow> string option" where
  "field2 lo hi v = (if lo \<le> v \<and> v \<le> hi then Some (pad2 (nat v)) else None)"

definition strftime_conv :: "char \<Rightarrow> tm \<Rightarrow> string option" where
  "strftime_conv d t =
     (if d = CHR ''H'' then field2 0 23 (tm_hour t)
      else if d = CHR ''M'' then field2 0 59 (tm_min t)
      else if d = CHR ''S'' then field2 0 60 (tm_sec t)
      else if d = CHR ''d'' then field2 1 31 (tm_mday t)
      else if d = CHR ''a'' then
        (if 0 \<le> tm_wday t \<and> tm_wday t \<le> 6 then Some (wday_names ! nat (tm_wday t)) else None)
      else if d = CHR ''b'' then
        (if 0 \<le> tm_mon t \<and> tm_mon t \<le> 11 then Some (mon_names ! nat (tm_mon t)) else None)
      else if d = CHR ''Y'' then
        (if int_ok (tm_year t) then Some (dec_int (int_wrap (tm_year t + 1900))) else None)
      else None)"

text \<open>
  Modelled from the spec: how \<^verbatim>\<open>strftime\<close> reads its format string, a \<^verbatim>\<open>%\<close> and
  a specifier, or an ordinary character that is copied.
\<close>

fun strftime_fmt :: "string \<Rightarrow> tm \<Rightarrow> string option" where
  "strftime_fmt [] t = Some []"
| "strftime_fmt [c] t = (if c = CHR ''%'' then None else Some [c])"
| "strftime_fmt (c # d # cs) t =
     (if c = CHR ''%'' then
        (case strftime_conv d t of
           None \<Rightarrow> None
         | Some s \<Rightarrow> map_option ((@) s) (strftime_fmt cs t))
      else map_option ((#) c) (strftime_fmt (d # cs) t))"

text \<open>
  Modelled from the spec: \<^verbatim>\<open>strftime(buf, maxsize, format, timeinfo)\<close> gives the
  string when it fits the buffer with its terminating null character; otherwise the
  buffer's contents are indeterminate.
\<close>

definition strftime :: "nat \<Rightarrow> string \<Rightarrow> tm \<Rightarrow> string option" where
  "strftime maxsize format t =
     (case strftime_fmt format t of
        None \<Rightarrow> None
      | Some s \<Rightarrow> if length s < maxsize then Some s else None)"

subsection \<open>Parsing back, as the specification words it\<close>









section \<open>The toolkit's objects and timers\<close>

text \<open>
  Modelled from the spec: the toolkit's widget tree and timer list are not part of the
  program. The specification's data model gives a screen a size, a background colour,
  scrollability and a visibility flag, a label an owning screen, a text, a colour and a
  font, and a timer a callback, a period and a repeat count. An object is a slot of
  the toolkit's pool \<open>objs\<close> and a handle is its index; \<^verbatim>\<open>NULL\<close> is \<open>None\<close>. A new
  object is visible and scrollable; \<open>label_text\<close> is \<open>None\<close> for an object that is not
  a label.
\<close>

datatype lv_obj_flag_t = LV_OBJ_FLAG_HIDDEN | LV_OBJ_FLAG_SCROLLABLE

datatype lv_align_t = LV_ALIGN_CENTER

datatype lv_font_t = lv_font_montserrat_14 | lv_font_montserrat_24 | lv_font_montserrat_28

record lv_obj =
  obj_parent :: "nat option"
  obj_flags :: "lv_obj_flag_t set"
  obj_size :: "(int \<times> int) option"
  obj_align :: "(lv_align_t \<times> int \<times> int) option"
  style_bg_color :: "lv_color_t option"
  style_border_width :: "int option"
  style_text_color :: "lv_color_t option"
  style_text_font :: "lv_font_t option"
  label_text :: "string option"

text \<open>The two callbacks the program registers with \<^verbatim>\<open>lv_timer_create\<close>.\<close>

datatype lv_timer_cb_t = Loading_timer_cb | Clock_update_cb

record lv_timer_t =
  timer_cb :: lv_timer_cb_t
  period :: nat
  last_run :: nat
  repeat_count :: int

text \<open>
  The state of the process: the eight globals of \<^verbatim>\<open>main.c\<close> (lines 18 to 27), the
  toolkit's object pool, active screen, timer slots (a deleted timer leaves \<open>None\<close>) and
  millisecond counter, and the calls made so far.
\<close>

record app =
  window :: "nat option"
  renderer :: "nat option"
  loading_screen :: "nat option"
  time_screen :: "nat option"
  time_label :: "nat option"
  date_label :: "nat option"
  loading_timer :: "nat option"
  clock_timer :: "nat option"
  objs :: "lv_obj list"
  act_scr :: "nat option"
  timers :: "lv_timer_t option list"
  tick :: nat
  calls :: "call list"

text \<open>
  Sequencing of steps that can fail, and the recording of a call. \<open>with_obj\<close> is the
  access every toolkit function below makes to the object behind a handle.
\<close>

definition seq :: "error + 'a \<Rightarrow> ('a \<Rightarrow> error + 'b) \<Rightarrow> error + 'b" where
  "seq m f = (case m of Inl e \<Rightarrow> Inl e | Inr v \<Rightarrow> f v)"

definition emit :: "call \<Rightarrow> app \<Rightarrow> app" where
  "emit c st = st\<lparr>calls := calls st @ [c]\<rparr>"

definition with_obj :: "nat option \<Rightarrow> (lv_obj \<Rightarrow> lv_obj) \<Rightarrow> app \<Rightarrow> error + app" where
  "with_obj h f st =
     (case h of
        None \<Rightarrow> Inl NullHandle
      | Some i \<Rightarrow>
          if i < length (objs st) then Inr (st\<lparr>objs := (objs st)[i := f (objs st ! i)]\<rparr>)
          else Inl BadHandle)"

text \<open>
  Modelled from the spec: the toolkit functions the program calls on objects. Creation
  adds a visible, scrollable object under the given parent (a label starts with the
  toolkit's placeholder text); each setter changes the one attribute it names; adding and
  clearing a flag change that flag only.
\<close>

definition new_obj :: "nat option \<Rightarrow> string option \<Rightarrow> lv_obj" where
  "new_obj p txt =
     \<lparr>obj_parent = p, obj_flags = {LV_OBJ_FLAG_SCROLLABLE}, obj_size = None, obj_align = None,
      style_bg_color = None, style_border_width = None, style_text_color = None,
      style_text_font = None, label_text = txt\<rparr>"

definition alloc_obj :: "nat option \<Rightarrow> string option \<Rightarrow> app \<Rightarrow> error + (nat \<times> app)" where
  "alloc_obj p txt st =
     (if (case p of None \<Rightarrow> True | Some i \<Rightarrow> i < length (objs st))
      then Inr (length (objs st), st\<lparr>objs := objs st @ [new_obj p txt]\<rparr>)
      else Inl BadHandle)"

definition lv_scr_act :: "app \<Rightarrow> nat option" where
  "lv_scr_act st = act_scr st"

definition lv_obj_create :: "nat option \<Rightarrow> app \<Rightarrow> error + (nat \<times> app)" where
  "lv_obj_create p st = alloc_obj p None st"

definition lv_label_create :: "nat option \<Rightarrow> app \<Rightarrow> error + (nat \<times> app)" where
  "lv_label_create p st = alloc_obj p (Some ''Text'') st"

definition lv_obj_set_size :: "nat option \<Rightarrow> int \<Rightarrow> int \<Rightarrow> app \<Rightarrow> error + app" where
  "lv_obj_set_size h w ht st = with_obj h (\<lambda>ob. ob\<lparr>obj_size := Some (w, ht)\<rparr>) st"

definition lv_obj_align :: "nat option \<Rightarrow> lv_align_t \<Rightarrow> int \<Rightarrow> int \<Rightarrow> app \<Rightarrow> error + app" where
  "lv_obj_align h a dx dy st = with_obj h (\<lambda>ob. ob\<lparr>obj_align := Some (a, dx, dy)\<rparr>) st"

definition lv_obj_add_flag :: "nat option \<Rightarrow> lv_obj_flag_t \<Rightarrow> app \<Rightarrow> error + app" where
  "lv_obj_add_flag h f st = with_obj h (\<lambda>ob. ob\<lparr>obj_flags := insert f (obj_flags ob)\<rparr>) st"

definition lv_obj_clear_flag :: "nat option \<Rightarrow> lv_obj_flag_t \<Rightarrow> app \<Rightarrow> error + app" where
  "lv_obj_clear_flag h f st = with_obj h (\<lambda>ob. ob\<lparr>obj_flags := obj_flags ob - {f}\<rparr>) st"

definition lv_obj_set_style_bg_color :: "nat option \<Rightarrow> lv_color_t \<Rightarrow> app \<Rightarrow> error + app" where
  "lv_obj_set_style_bg_color h c st = with_obj h (\<lambda>ob. ob\<lparr>style_bg_color := Some c\<rparr>) st"

definition lv_obj_set_style_border_width :: "nat option \<Rightarrow> int \<Rightarrow> app \<Rightarrow> error + app" where
  "lv_obj_set_style_border_width h w st = with_obj h (\<lambda>ob. ob\<lparr>style_border_width := Some w\<rparr>) st"

definition lv_obj_set_style_text_color :: "nat option \<Rightarrow> lv_color_t \<Rightarrow> app \<Rightarrow> error + app" where
  "lv_obj_set_style_text_color h c st = with_obj h (\<lambda>ob. ob\<lparr>style_text_color := Some c\<rparr>) st"

definition lv_obj_set_style_text_font :: "nat option \<Rightarrow> lv_font_t \<Rightarrow> app \<Rightarrow> error + app" where
  "lv_obj_set_style_text_font h f st = with_obj h (\<lambda>ob. ob\<lparr>style_text_font := Some f\<rparr>) st"

definition lv_label_set_text :: "nat option \<Rightarrow> string \<Rightarrow> app \<Rightarrow> error + app" where
  "lv_label_set_text h s st = with_obj h (\<lambda>ob. ob\<lparr>label_text := Some s\<rparr>) st"

text \<open>
  Modelled from the spec: the toolkit's colour constructors, which pack eight-bit channels
  into the 5-6-5 layout.
\<close>

definition lv_color_make :: "uint8 \<Rightarrow> uint8 \<Rightarrow> uint8 \<Rightarrow> lv_color_t" where
  "lv_color_make r g b =
     push_bit 11 (ucast (drop_bit 3 r)) OR push_bit 5 (ucast (drop_bit 2 g)) OR ucast (drop_bit 3 b)"

definition lv_color_black :: lv_color_t where
  "lv_color_black = lv_color_make 0 0 0"

definition lv_color_white :: lv_color_t where
  "lv_color_white = lv_color_make 0xFF 0xFF 0xFF"

text \<open>
  Modelled from the spec: \<^verbatim>\<open>lv_timer_create\<close> makes a new slot, repeating without
  end (\<open>-1\<close>), its period counted from the current tick;
  \<^verbatim>\<open>lv_timer_set_repeat_count\<close> sets the count of a live timer.
\<close>

definition lv_timer_create :: "lv_timer_cb_t \<Rightarrow> nat \<Rightarrow> app \<Rightarrow> nat \<times> app" where
  "lv_timer_create cb p st =
     (length (timers st),
      st\<lparr>timers := timers st @
            [Some \<lparr>timer_cb = cb, period = p, last_run = tick st, repeat_count = - 1\<rparr>]\<rparr>)"

definition lv_timer_set_repeat_count :: "nat option \<Rightarrow> int \<Rightarrow> app \<Rightarrow> error + app" where
  "lv_timer_set_repeat_count h n st =
     (case h of
        None \<Rightarrow> Inl NullHandle
      | Some i \<Rightarrow>
          if i < length (timers st) then
            (case timers st ! i of
               None \<Rightarrow> Inl BadHandle
             | Some t \<Rightarrow> Inr (st\<lparr>timers := (timers st)[i := Some (t\<lparr>repeat_count := n\<rparr>)]\<rparr>))
          else Inl BadHandle)"

section \<open>Screens and timer callbacks\<close>

text \<open>
  \<^verbatim>\<open>update_time_display\<close>. \<open>timeinfo\<close> is what \<^verbatim>\<open>localtime(&now)\<close> points to after
  \<^verbatim>\<open>time(&now)\<close>: the wall clock is an input. The program ignores the result of
  \<^verbatim>\<open>strftime\<close>; a string that did not fit leaves the buffer indeterminate.
\<close>

definition update_time_display :: "tm \<Rightarrow> app \<Rightarrow> error + app" where
  "update_time_display timeinfo st =
     (case strftime 32 ''%H:%M:%S'' timeinfo of
        None \<Rightarrow> Inl Truncated
      | Some time_str \<Rightarrow>
          seq (lv_label_set_text (time_label st) time_str st) (\<lambda>st.
            (case strftime 64 ''%a, %b %d %Y'' timeinfo of
               None \<Rightarrow> Inl Truncated
             | Some date_str \<Rightarrow> lv_label_set_text (date_label st) date_str st)))"

definition clock_update_cb :: "tm \<Rightarrow> app \<Rightarrow> error + app" where
  "clock_update_cb timeinfo st = update_time_display timeinfo st"

definition loading_timer_cb :: "app \<Rightarrow> error + app" where
  "loading_timer_cb st =
     seq (lv_obj_add_flag (loading_screen st) LV_OBJ_FLAG_HIDDEN st) (\<lambda>st.
     seq (lv_obj_clear_flag (time_screen st) LV_OBJ_FLAG_HIDDEN st) (\<lambda>st.
     Inr (emit (Printf ''Switched to time display\<newline>'') st)))"

definition create_loading_screen :: "app \<Rightarrow> error + app" where
  "create_loading_screen st =
     seq (lv_obj_create (lv_scr_act st) st) (\<lambda>(h, st).
     let st = st\<lparr>loading_screen := Some h\<rparr> in
     seq (lv_obj_set_size (loading_screen st) SCREEN_WIDTH SCREEN_HEIGHT st) (\<lambda>st.
     seq (lv_obj_set_style_bg_color (loading_screen st) lv_color_black st) (\<lambda>st.
     seq (lv_obj_set_style_border_width (loading_screen st) 0 st) (\<lambda>st.
     seq (lv_obj_clear_flag (loading_screen st) LV_OBJ_FLAG_SCROLLABLE st) (\<lambda>st.
     seq (lv_obj_align (loading_screen st) LV_ALIGN_CENTER 0 0 st) (\<lambda>st.
     seq (lv_label_create (loading_screen st) st) (\<lambda>(welcome_label, st).
     seq (lv_label_set_text (Some welcome_label) ''Welcome'' st) (\<lambda>st.
     seq (lv_obj_set_style_text_color (Some welcome_label) lv_color_white st) (\<lambda>st.
     seq (lv_obj_set_style_text_font (Some welcome_label) lv_font_montserrat_24 st) (\<lambda>st.
     seq (lv_obj_align (Some welcome_label) LV_ALIGN_CENTER 0 0 st) (\<lambda>st.
     let (t, st) = lv_timer_create Loading_timer_cb 4000 st;
         st = st\<lparr>loading_timer := Some t\<rparr>
     in lv_timer_set_repeat_count (loading_timer st) 1 st)))))))))))"

definition create_time_screen :: "tm \<Rightarrow> app \<Rightarrow> error + app" where
  "create_time_screen timeinfo st =
     seq (lv_obj_create (lv_scr_act st) st) (\<lambda>(h, st).
     let st = st\<lparr>time_screen := Some h\<rparr> in
     seq (lv_obj_set_size (time_screen st) SCREEN_WIDTH SCREEN_HEIGHT st) (\<lambda>st.
     seq (lv_obj_set_style_bg_color (time_screen st) lv_color_black st) (\<lambda>st.
     seq (lv_obj_set_style_border_width (time_screen st) 0 st) (\<lambda>st.
     seq (lv_obj_clear_flag (time_screen st) LV_OBJ_FLAG_SCROLLABLE st) (\<lambda>st.
     seq (lv_obj_align (time_screen st) LV_ALIGN_CENTER 0 0 st) (\<lambda>st.
     seq (lv_obj_add_flag (time_screen st) LV_OBJ_FLAG_HIDDEN st) (\<lambda>st.
     seq (lv_label_create (time_screen st) st) (\<lambda>(h, st).
     let st = st\<lparr>time_label := Some h\<rparr> in
     seq (lv_label_set_text (time_label st) ''00:00:00'' st) (\<lambda>st.
     seq (lv_obj_set_style_text_color (time_label st) lv_color_white st) (\<lambda>st.
     seq (lv_obj_set_style_text_font (time_label st) lv_font_montserrat_28 st) (\<lambda>st.
     seq (lv_obj_align (time_label st) LV_ALIGN_CENTER 0 (- 20) st) (\<lambda>st.
     seq (lv_label_create (time_screen st) st) (\<lambda>(h, st).
     let st = st\<lparr>date_label := Some h\<rparr> in
     seq (lv_label_set_text (date_label st) [] st) (\<lambda>st.
     seq (lv_obj_set_style_text_color (date_label st) (lv_color_make 180 180 180) st) (\<lambda>st.
     seq (lv_obj_set_style_text_font (date_label st) lv_font_montserrat_14 st) (\<lambda>st.
     seq (lv_obj_align (date_label st) LV_ALIGN_CENTER 0 30 st) (\<lambda>st.
     seq (update_time_display timeinfo st) (\<lambda>st.
     let (t, st) = lv_timer_create Clock_update_cb 1000 st
     in Inr (st\<lparr>clock_timer := Some t\<rparr>)))))))))))))))))))"

text \<open>A screen is visible when its hidden flag is clear; a null or stale handle shows nothing.\<close>

definition visible :: "nat option \<Rightarrow> app \<Rightarrow> bool" where
  "visible h st =
     (case h of
        None \<Rightarrow> False
      | Some i \<Rightarrow> i < length (objs st) \<and> LV_OBJ_FLAG_HIDDEN \<notin> obj_flags (objs st ! i))"

section \<open>The toolkit's handler\<close>

text \<open>
  Modelled from the spec: \<^verbatim>\<open>lv_timer_handler\<close> is the toolkit's, not the program's.
  The specification says that it evaluates due timers, firing their callbacks, and
  redraws the dirty regions through the flush callback; that a timer is due a period
  after it was started or last fired; and that a timer with a repeat count fires that many
  times and then becomes inert. \<open>lv_timer_exec\<close> is one slot: a due timer is restarted
  and counted down, its callback runs, and a timer that reached zero is deleted. Ticks
  are milliseconds counted as natural numbers; the specification says nothing about the
  wrap-around of a machine counter.
\<close>

definition run_cb :: "lv_timer_cb_t \<Rightarrow> tm \<Rightarrow> app \<Rightarrow> error + app" where
  "run_cb cb timeinfo st =
     (case cb of
        Loading_timer_cb \<Rightarrow> loading_timer_cb st
      | Clock_update_cb \<Rightarrow> clock_update_cb timeinfo st)"

definition lv_timer_exec :: "nat \<Rightarrow> tm \<Rightarrow> app \<Rightarrow> error + app" where
  "lv_timer_exec i timeinfo st =
     (if i < length (timers st) then
        (case timers st ! i of
           None \<Rightarrow> Inr st
         | Some t \<Rightarrow>
             if period t \<le> tick st - last_run t then
               (let n = (if 0 < repeat_count t then repeat_count t - 1 else repeat_count t);
                    st1 = st\<lparr>timers := (timers st)[i := Some (t\<lparr>last_run := tick st, repeat_count := n\<rparr>)]\<rparr>
                in seq (if repeat_count t \<noteq> 0 then run_cb (timer_cb t) timeinfo st1 else Inr st1) (\<lambda>st2.
                   Inr (if n = 0 then st2\<lparr>timers := (timers st2)[i := None]\<rparr> else st2)))
             else Inr st)
      else Inr st)"

fun lv_timer_run :: "nat list \<Rightarrow> tm \<Rightarrow> app \<Rightarrow> error + app" where
  "lv_timer_run [] timeinfo st = Inr st"
| "lv_timer_run (i # js) timeinfo st = seq (lv_timer_exec i timeinfo st) (lv_timer_run js timeinfo)"

text \<open>
  Modelled from the spec: the redraw, in which the toolkit hands each dirty region and its
  pixels to \<^verbatim>\<open>sdl_display_flush\<close>.
\<close>

fun lv_refr :: "(lv_area_t \<times> lv_color_t list) list \<Rightarrow> app \<Rightarrow> error + app" where
  "lv_refr [] st = Inr st"
| "lv_refr ((area, color_p) # rs) st =
     seq (sdl_display_flush area color_p) (\<lambda>tr. lv_refr rs (st\<lparr>calls := calls st @ tr\<rparr>))"

text \<open>
  What one iteration of the event loop receives from outside: the events
  \<^verbatim>\<open>SDL_PollEvent\<close> delivers before it returns 0, the toolkit's millisecond counter
  and the local time when the handler runs, and the regions the toolkit redraws.
\<close>

record iter_input =
  polled :: "sdl_event list"
  now_tick :: nat
  now_time :: tm
  redraw :: "(lv_area_t \<times> lv_color_t list) list"

text \<open>
  Modelled from the spec: \<^verbatim>\<open>lv_timer_handler\<close> reads the tick, evaluates the timer
  slots in order and then redraws. The pointer is polled through \<^verbatim>\<open>sdl_mouse_read\<close>
  as well; its result goes to the toolkit's input pipeline and changes nothing in this
  state, so the poll is left out.
\<close>

definition lv_timer_handler :: "iter_input \<Rightarrow> app \<Rightarrow> error + app" where
  "lv_timer_handler inp st =
     (let st = emit Lv_timer_handler (st\<lparr>tick := now_tick inp\<rparr>) in
      seq (lv_timer_run [0..<length (timers st)] (now_time inp) st) (lv_refr (redraw inp)))"

section \<open>The main function\<close>

text \<open>\<^verbatim>\<open>while (SDL_PollEvent(&event)) { if (event.type == SDL_QUIT) quit = true; }\<close>\<close>

fun poll_events :: "sdl_event list \<Rightarrow> bool \<Rightarrow> app \<Rightarrow> bool \<times> app" where
  "poll_events [] quit st = (quit, emit (SDL_PollEvent None) st)"
| "poll_events (e # es) quit st =
     poll_events es (if e = SDL_QUIT then True else quit) (emit (SDL_PollEvent (Some e)) st)"

text \<open>The body of \<^verbatim>\<open>while (!quit)\<close>, entered with \<open>quit\<close> false; it returns the new flag.\<close>

definition loop_body :: "iter_input \<Rightarrow> app \<Rightarrow> error + (bool \<times> app)" where
  "loop_body inp st =
     (let (quit, st) = poll_events (polled inp) False st;
          st = emit (SDL_SetRenderDrawColor 0 0 0 255) st;
          st = emit SDL_RenderClear st
      in seq (lv_timer_handler inp st) (\<lambda>st.
         Inr (quit, emit (SDL_Delay 5) (emit SDL_RenderPresent st))))"

text \<open>
  The loop over the iterations the environment provides for. The flag returned is
  \<open>True\<close> when the loop has ended, and \<open>False\<close> when the inputs are used up with
  \<open>quit\<close> still false: the loop is then still running.
\<close>

fun main_loop :: "iter_input list \<Rightarrow> app \<Rightarrow> error + (bool \<times> app)" where
  "main_loop [] st = Inr (False, st)"
| "main_loop (inp # rest) st =
     seq (loop_body inp st) (\<lambda>(quit, st). if quit then Inr (True, st) else main_loop rest st)"

text \<open>
  What startup receives from outside: the results of \<^verbatim>\<open>SDL_Init\<close>,
  \<^verbatim>\<open>SDL_GetError\<close>, \<^verbatim>\<open>SDL_CreateWindow\<close> and \<^verbatim>\<open>SDL_CreateRenderer\<close>, the
  toolkit's millisecond counter and the local time.
\<close>

record boot_env =
  sdl_init_rc :: int
  sdl_error :: string
  new_window :: "nat option"
  new_renderer :: "nat option"
  boot_tick :: nat
  boot_time :: tm

text \<open>Program start: every global is \<^verbatim>\<open>NULL\<close> and the toolkit holds nothing.\<close>

definition app0 :: app where
  "app0 =
     \<lparr>window = None, renderer = None, loading_screen = None, time_screen = None,
      time_label = None, date_label = None, loading_timer = None, clock_timer = None,
      objs = [], act_scr = None, timers = [], tick = 0, calls = []\<rparr>"

text \<open>
  Modelled from the spec: toolkit initialisation and driver registration. Registering
  the display driver creates the display's active screen, the parent of both containers.
\<close>

definition lv_init :: "nat \<Rightarrow> app \<Rightarrow> app" where
  "lv_init t st = emit Lv_init (st\<lparr>tick := t\<rparr>)"

definition lv_disp_drv_register :: "int \<Rightarrow> int \<Rightarrow> nat \<Rightarrow> app \<Rightarrow> app" where
  "lv_disp_drv_register hor_res ver_res buf_size st =
     emit (Lv_disp_drv_register hor_res ver_res buf_size)
       (st\<lparr>objs := objs st @ [new_obj None None], act_scr := Some (length (objs st))\<rparr>)"

definition lv_indev_drv_register :: "app \<Rightarrow> app" where
  "lv_indev_drv_register st = emit Lv_indev_drv_register st"

text \<open>Lines 223 to 257 of \<^verbatim>\<open>main\<close>: from the logical size to the last message before the loop.\<close>

definition startup :: "boot_env \<Rightarrow> app \<Rightarrow> error + app" where
  "startup env st =
     (let st = emit (SDL_RenderSetLogicalSize SCREEN_WIDTH SCREEN_HEIGHT) st;
          st = lv_init (boot_tick env) st;
          st = lv_disp_drv_register SCREEN_WIDTH SCREEN_HEIGHT (nat (SCREEN_WIDTH * 10)) st;
          st = lv_indev_drv_register st
      in seq (create_loading_screen st) (\<lambda>st.
         seq (create_time_screen (boot_time env) st) (\<lambda>st.
         Inr (emit (Printf ''Loading screen displayed. Will switch to time in 4 seconds...\<newline>'') st))))"

text \<open>Lines 285 to 290: the cleanup after the loop.\<close>

definition cleanup :: "app \<Rightarrow> app" where
  "cleanup st =
     emit (Printf ''Application closed.\<newline>'')
       (emit SDL_Quit (emit SDL_DestroyWindow (emit SDL_DestroyRenderer st)))"

text \<open>
  How a run ends: the process returned a status, or it is still in its loop when the
  inputs are used up, or it ran into undefined behaviour.
\<close>

datatype outcome = Exited int app | Running app | Crashed error

definition banner :: "app \<Rightarrow> app" where
  "banner st =
     emit (Printf (''Target display: 1.47'' @ [CHR 0x22] @ '' ('' @ dec_int SCREEN_WIDTH @ ''x''
                   @ dec_int SCREEN_HEIGHT @ '')\<newline>''))
       (emit (Printf ''Starting LVGL Watch Application...\<newline>'') st)"

definition main :: "boot_env \<Rightarrow> iter_input list \<Rightarrow> outcome" where
  "main env inputs =
     (let st = emit SDL_Init (banner app0) in
      if sdl_init_rc env \<noteq> 0 then
        Exited 1 (emit (Printf (''SDL_Init Error: '' @ sdl_error env @ ''\<newline>'')) st)
      else
        let st = (emit (SDL_CreateWindow ''LVGL Watch Simulator'' (SCREEN_WIDTH * 2) (SCREEN_HEIGHT * 2)) st)
                   \<lparr>window := new_window env\<rparr>
        in if window st = None then
             Exited 1 (emit SDL_Quit
               (emit (Printf (''SDL_CreateWindow Error: '' @ sdl_error env @ ''\<newline>'')) st))
           else
             let st = (emit SDL_CreateRenderer st)\<lparr>renderer := new_renderer env\<rparr>
             in if renderer st = None then
                  Exited 1 (emit SDL_Quit (emit SDL_DestroyWindow
                    (emit (Printf (''SDL_CreateRenderer Error: '' @ sdl_error env @ ''\<newline>'')) st)))
                else
                  (case seq (startup env st) (main_loop inputs) of
                     Inl e \<Rightarrow> Crashed e
                   | Inr (quit, st) \<Rightarrow> if quit then Exited 0 (cleanup st) else Running st))"

section \<open>Vocabulary of the properties\<close>

text \<open>
  The definitions below belong to the statements of the properties, not to the program.
  A handle is usable when it is not null and names an object of the pool; the program is
  \<open>ready\<close> when the four handles its timer callbacks dereference are usable.
\<close>

definition handle_ok :: "nat option \<Rightarrow> app \<Rightarrow> bool" where
  "handle_ok h st = (case h of None \<Rightarrow> False | Some i \<Rightarrow> i < length (objs st))"

definition ready :: "app \<Rightarrow> bool" where
  "ready st =
     (handle_ok (loading_screen st) st \<and> handle_ok (time_screen st) st \<and>
      handle_ok (time_label st) st \<and> handle_ok (date_label st) st)"

text \<open>How often the transition callback has run: it prints one line each time.\<close>

definition transition_msg :: call where
  "transition_msg = Printf ''Switched to time display\<newline>''"

definition switched :: "app \<Rightarrow> nat" where
  "switched st = count_list (calls st) transition_msg"

text \<open>
  Inputs the platform and the toolkit can deliver: a local time with its fields in range,
  and redraw requests whose buffer holds the pixels of the rectangle. A startup
  environment in which the three platform calls succeed.
\<close>

definition flush_fits :: "lv_area_t \<times> lv_color_t list \<Rightarrow> bool" where
  "flush_fits r =
     (case r of (area, color_p) \<Rightarrow>
        area_w area * area_h area \<le> int (length color_p) \<and> int (length color_p) \<le> INT_MAX)"

definition input_ok :: "iter_input \<Rightarrow> bool" where
  "input_ok inp = (valid_tm (now_time inp) \<and> list_all flush_fits (redraw inp))"

definition env_ok :: "boot_env \<Rightarrow> bool" where
  "env_ok env =
     (sdl_init_rc env = 0 \<and> new_window env \<noteq> None \<and> new_renderer env \<noteq> None \<and>
      valid_tm (boot_time env))"

text \<open>
  An iteration sees the close event; the iterations of a list of inputs that the loop
  executes (up to and including the first that sees the close event); whether one does.
\<close>

definition has_quit :: "iter_input \<Rightarrow> bool" where
  "has_quit inp = (SDL_QUIT \<in> set (polled inp))"

fun executed :: "iter_input list \<Rightarrow> iter_input list" where
  "executed [] = []"
| "executed (inp # rest) = inp # (if has_quit inp then [] else executed rest)"

definition quit_seen :: "iter_input list \<Rightarrow> bool" where
  "quit_seen inputs = list_ex has_quit inputs"

text \<open>
  The calls of one iteration, given the calls \<open>h\<close> made inside the toolkit's handler, and
  the calls the handler can make: the transition message and the drawing calls of the
  flush callback.
\<close>

definition iteration_calls :: "iter_input \<Rightarrow> call list \<Rightarrow> call list" where
  "iteration_calls inp h =
     map (\<lambda>e. SDL_PollEvent (Some e)) (polled inp) @
     [SDL_PollEvent None, SDL_SetRenderDrawColor 0 0 0 255, SDL_RenderClear, Lv_timer_handler] @
     h @ [SDL_RenderPresent, SDL_Delay 5]"

definition handler_call :: "call \<Rightarrow> bool" where
  "handler_call c =
     (case c of
        Printf s \<Rightarrow> c = transition_msg
      | SDL_SetRenderDrawColor r g b a \<Rightarrow> True
      | SDL_RenderDrawPoint x y \<Rightarrow> True
      | Lv_disp_flush_ready \<Rightarrow> True
      | _ \<Rightarrow> False)"

text \<open>The state of \<open>main\<close> when the renderer has been created (line 221).\<close>

definition platform_up :: "boot_env \<Rightarrow> app" where
  "platform_up env =
     (emit SDL_CreateRenderer
        ((emit (SDL_CreateWindow ''LVGL Watch Simulator'' (SCREEN_WIDTH * 2) (SCREEN_HEIGHT * 2))
            (emit SDL_Init (banner app0)))\<lparr>window := new_window env\<rparr>))\<lparr>renderer := new_renderer env\<rparr>"

text \<open>
  The invariant of the event loop, for a splash timer started at tick \<open>t0\<close>: the handles
  are usable and the two screens are different objects; the second timer slot is the
  clock timer; and either the transition has not run, the splash timer is pending and the
  Loading Screen alone is visible, or it has run once, the splash timer is deleted and
  the Clock Screen alone is visible.
\<close>

definition loop_inv :: "nat \<Rightarrow> app \<Rightarrow> bool" where
  "loop_inv t0 st =
     (ready st \<and> loading_screen st \<noteq> time_screen st \<and> length (timers st) = 2 \<and>
      (case timers st ! 1 of
         None \<Rightarrow> False
       | Some t \<Rightarrow> timer_cb t = Clock_update_cb \<and> period t = 1000 \<and> repeat_count t = - 1) \<and>
      (if switched st = 0 then
         timers st ! 0 = Some \<lparr>timer_cb = Loading_timer_cb, period = 4000, last_run = t0,
                                repeat_count = 1\<rparr> \<and>
         visible (loading_screen st) st \<and> \<not> visible (time_screen st) st
       else
         switched st = 1 \<and> timers st ! 0 = None \<and>
         \<not> visible (loading_screen st) st \<and> visible (time_screen st) st))"

text \<open>
  \<open>refreshed st st'\<close>: the state \<open>st'\<close> differs from \<open>st\<close> in nothing but the texts of
  labels. The globals, the timers, the tick and the calls are the same, the pool has the
  same objects, and each object keeps every field other than its text.
\<close>

definition refreshed :: "app \<Rightarrow> app \<Rightarrow> bool" where
  "refreshed st st' =
     (st' = st\<lparr>objs := objs st'\<rparr> \<and> length (objs st') = length (objs st) \<and>
      (\<forall>i < length (objs st). objs st' ! i = (objs st ! i)\<lparr>label_text := label_text (objs st' ! i)\<rparr>))"

text \<open>
  The state \<open>startup\<close> produces from a state \<open>st\<close> in which the toolkit holds
  nothing: the active screen is object 0, the Loading Screen and its label are objects 1
  and 2, the Clock Screen and its two labels are objects 3, 4 and 5, showing the strings
  \<open>clock\<close> and \<open>date\<close>; the splash timer is slot 0 and the clock timer slot 1.
\<close>

definition booted :: "boot_env \<Rightarrow> string \<Rightarrow> string \<Rightarrow> app \<Rightarrow> app" where
  "booted env clock date st =
     st\<lparr>loading_screen := Some 1, time_screen := Some 3, time_label := Some 4, date_label := Some 5,
        loading_timer := Some 0, clock_timer := Some 1,
        objs :=
          [new_obj None None,
           \<lparr>obj_parent = Some 0, obj_flags = {}, obj_size = Some (172, 320),
            obj_align = Some (LV_ALIGN_CENTER, 0, 0), style_bg_color = Some 0,
            style_border_width = Some 0, style_text_color = None, style_text_font = None,
            label_text = None\<rparr>,
           \<lparr>obj_parent = Some 1, obj_flags = {LV_OBJ_FLAG_SCROLLABLE}, obj_size = None,
            obj_align = Some (LV_ALIGN_CENTER, 0, 0), style_bg_color = None,
            style_border_width = None, style_text_color = Some 0xFFFF,
            style_text_font = Some lv_font_montserrat_24, label_text = Some ''Welcome''\<rparr>,
           \<lparr>obj_parent = Some 0, obj_flags = {LV_OBJ_FLAG_HIDDEN}, obj_size = Some (172, 320),
            obj_align = Some (LV_ALIGN_CENTER, 0, 0), style_bg_color = Some 0,
            style_border_width = Some 0, style_text_color = None, style_text_font = None,
            label_text = None\<rparr>,
           \<lparr>obj_parent = Some 3, obj_flags = {LV_OBJ_FLAG_SCROLLABLE}, obj_size = None,
            obj_align = Some (LV_ALIGN_CENTER, 0, - 20), style_bg_color = None,
            style_border_width = None, style_text_color = Some 0xFFFF,
            style_text_font = Some lv_font_montserrat_28, label_text = Some clock\<rparr>,
           \<lparr>obj_parent = Some 3, obj_flags = {LV_OBJ_FLAG_SCROLLABLE}, obj_size = None,
            obj_align = Some (LV_ALIGN_CENTER, 0, 30), style_bg_color = None,
            style_border_width = None, style_text_color = Some (lv_color_make 180 180 180),
            style_text_font = Some lv_font_montserrat_14, label_text = Some date\<rparr>],
        act_scr := Some 0,
        timers :=
          [Some \<lparr>timer_cb = Loading_timer_cb, period = 4000, last_run = boot_tick env,
                  repeat_count = 1\<rparr>,
           Some \<lparr>timer_cb = Clock_update_cb, period = 1000, last_run = boot_tick env,
                  repeat_count = - 1\<rparr>],
        tick := boot_tick env,
        calls := calls st @
          [SDL_RenderSetLogicalSize 172 320, Lv_init, Lv_disp_drv_register 172 320 1720,
           Lv_indev_drv_register,
           Printf ''Loading screen displayed. Will switch to time in 4 seconds...\<newline>'']\<rparr>"

text \<open>The status and the final state of a run that returned.\<close>

definition exit_status :: "outcome \<Rightarrow> int option" where
  "exit_status r = (case r of Exited n st \<Rightarrow> Some n | _ \<Rightarrow> None)"

definition exit_state :: "outcome \<Rightarrow> app option" where
  "exit_state r = (case r of Exited n st \<Rightarrow> Some st | _ \<Rightarrow> None)"

text \<open>
  A sample run: startup succeeds at tick 10; the first iteration runs its handler at tick
  4009, the second at tick 4010, with two pending events, the second of them the close
  event, and one redraw of a two by two rectangle; a third iteration is provided for but
  never reached. And a run whose window is closed in the first iteration, at tick 20.
\<close>

definition sample_time :: tm where
  "sample_time =
     \<lparr>tm_sec = 7, tm_min = 5, tm_hour = 13, tm_mday = 3, tm_mon = 9, tm_year = 126, tm_wday = 5\<rparr>"











definition sample_env :: boot_env where
  "sample_env =
     \<lparr>sdl_init_rc = 0, sdl_error = [], new_window = Some 1, new_renderer = Some 2,
      boot_tick = 10, boot_time = sample_time\<rparr>"

definition sample_inputs :: "iter_input list" where
  "sample_inputs =
     [\<lparr>polled = [], now_tick = 4009, now_time = sample_time, redraw = []\<rparr>,
      \<lparr>polled = [5, SDL_QUIT], now_tick = 4010, now_time = sample_time,
       redraw = [(\<lparr>x1 = 3, y1 = 4, x2 = 4, y2 = 5\<rparr>, [0xFFFF, 0, 0x1234, 0x8000])]\<rparr>,
      \<lparr>polled = [], now_tick = 5020, now_time = sample_time, redraw = []\<rparr>]"

definition early_quit :: "iter_input list" where
  "early_quit = [\<lparr>polled = [SDL_QUIT], now_tick = 20, now_time = sample_time, redraw = []\<rparr>]"


section \<open>Properties of the display-flush callback\<close>









lemma read_pixel_ok:
  assumes fit: "area_w area * area_h area \<le> int (length color_p)"
    and len: "int (length color_p) \<le> INT_MAX"
    and x: "sint (x1 area) \<le> x" "x \<le> sint (x2 area)"
    and y: "sint (y1 area) \<le> y" "y \<le> sint (y2 area)"
  shows "read_pixel area color_p x y = Inr (color_p ! nat (pixel_index area x y))"
proof -
  let ?w = "area_w area" and ?h = "area_h area"
  have w: "0 < ?w" and h: "0 < ?h" using x y by (simp_all add: area_w_def area_h_def)
  have r: "0 \<le> y - sint (y1 area)" "y - sint (y1 area) \<le> ?h - 1" using y by (simp_all add: area_h_def)
  have c: "0 \<le> x - sint (x1 area)" "x - sint (x1 area) \<le> ?w - 1" using x by (simp_all add: area_w_def)
  have p0: "0 \<le> (y - sint (y1 area)) * ?w" using r w by simp
  have "(y - sint (y1 area)) * ?w \<le> (?h - 1) * ?w"
    using r w by (intro mult_right_mono) simp_all
  then have p1: "(y - sint (y1 area)) * ?w + (x - sint (x1 area)) < ?w * ?h"
    using c by (simp add: algebra_simps)
  have idx: "pixel_index area x y = (y - sint (y1 area)) * ?w + (x - sint (x1 area))"
    by (simp add: pixel_index_def area_w_def)
  have lo: "0 \<le> pixel_index area x y" using p0 c idx by simp
  have hi: "pixel_index area x y < int (length color_p)" using p1 fit idx by simp
  have prod: "(y - sint (y1 area)) * ?w \<le> pixel_index area x y" using c idx by simp
  show ?thesis
    using lo hi prod p0 len
    by (simp add: read_pixel_def Let_def int_ok_def INT_MIN_def INT_MAX_def area_w_def)
qed

lemma flush_row_ok:
  "(\<And>x'. x \<le> x' \<Longrightarrow> x' \<le> sint (x2 area) \<Longrightarrow> read_pixel area color_p x' y = Inr (f x')) \<Longrightarrow>
   flush_row area color_p y x = Inr (concat (map (\<lambda>x'. draw_pixel (f x') x' y) [x..sint (x2 area)]))"
proof (induction area color_p y x rule: flush_row.induct)
  case (1 area color_p y x)
  show ?case
  proof (cases "x \<le> sint (x2 area)")
    case True
    have rd: "read_pixel area color_p x y = Inr (f x)" using "1.prems" True by simp
    have ih: "flush_row area color_p y (x + 1) = Inr (concat (map (\<lambda>x'. draw_pixel (f x') x' y) [x + 1..sint (x2 area)]))"
      using "1.IH"[OF True rd] "1.prems" by simp
    have up: "[x..sint (x2 area)] = x # [x + 1..sint (x2 area)]" using True by (simp add: upto_rec1)
    show ?thesis
      by (subst flush_row.simps) (simp add: True rd ih up)
  next
    case False
    then show ?thesis by (subst flush_row.simps) simp
  qed
qed

lemma flush_rows_ok:
  "(\<And>y'. y \<le> y' \<Longrightarrow> y' \<le> sint (y2 area) \<Longrightarrow> flush_row area color_p y' (sint (x1 area)) = Inr (g y')) \<Longrightarrow>
   flush_rows area color_p y = Inr (concat (map g [y..sint (y2 area)]))"
proof (induction area color_p y rule: flush_rows.induct)
  case (1 area color_p y)
  show ?case
  proof (cases "y \<le> sint (y2 area)")
    case True
    have rd: "flush_row area color_p y (sint (x1 area)) = Inr (g y)" using "1.prems" True by simp
    have ih: "flush_rows area color_p (y + 1) = Inr (concat (map g [y + 1..sint (y2 area)]))"
      using "1.IH"[OF True rd] "1.prems" by simp
    have up: "[y..sint (y2 area)] = y # [y + 1..sint (y2 area)]" using True by (simp add: upto_rec1)
    show ?thesis
      by (subst flush_rows.simps) (simp add: True rd ih up)
  next
    case False
    then show ?thesis by (subst flush_rows.simps) simp
  qed
qed

lemma concat_concat_map: "concat (map (\<lambda>y. concat (F y)) ys) = concat (concat (map F ys))"
  by (induction ys) simp_all

lemma sdl_display_flush_ok:
  assumes fit: "area_w area * area_h area \<le> int (length color_p)"
    and len: "int (length color_p) \<le> INT_MAX"
  shows "sdl_display_flush area color_p =
         Inr (concat (map (\<lambda>(c, x, y). draw_pixel c x y) (area_pixels area color_p)) @ [Lv_disp_flush_ready])"
proof -
  have row: "flush_row area color_p y (sint (x1 area)) =
      Inr (concat (map (\<lambda>x. draw_pixel (color_p ! nat (pixel_index area x y)) x y) [sint (x1 area)..sint (x2 area)]))"
    if "sint (y1 area) \<le> y" "y \<le> sint (y2 area)" for y
    by (rule flush_row_ok) (simp add: read_pixel_ok[OF fit len] that)
  have rows: "flush_rows area color_p (sint (y1 area)) =
      Inr (concat (map (\<lambda>y. concat (map (\<lambda>x. draw_pixel (color_p ! nat (pixel_index area x y)) x y) [sint (x1 area)..sint (x2 area)]))
             [sint (y1 area)..sint (y2 area)]))"
    by (rule flush_rows_ok) (simp add: row)
  show ?thesis
    by (simp add: sdl_display_flush_def rows area_pixels_def map_concat comp_def concat_concat_map)
qed


lemma coords_distinct:
  "distinct xs \<Longrightarrow> distinct ys \<Longrightarrow> distinct (concat (map (\<lambda>y. map (\<lambda>x. (x, y)) xs) ys))"
  by (induction ys) (auto simp: distinct_map inj_on_def)


lemma read_pixel_Inr:
  "read_pixel area color_p x y = Inr c \<Longrightarrow> c = color_p ! nat (pixel_index area x y)"
  by (simp add: read_pixel_def Let_def split: if_splits)

lemma flush_row_Inr:
  "flush_row area color_p y x = Inr tr \<Longrightarrow>
   tr = concat (map (\<lambda>x'. draw_pixel (color_p ! nat (pixel_index area x' y)) x' y) [x..sint (x2 area)])"
proof (induction area color_p y x arbitrary: tr rule: flush_row.induct)
  case (1 area color_p y x)
  show ?case
  proof (cases "x \<le> sint (x2 area)")
    case True
    from "1.prems" obtain c tr' where rd: "read_pixel area color_p x y = Inr c"
      and rest: "flush_row area color_p y (x + 1) = Inr tr'"
      and tr: "tr = draw_pixel c x y @ tr'"
      by (subst (asm) flush_row.simps) (auto simp: True split: sum.splits)
    have up: "[x..sint (x2 area)] = x # [x + 1..sint (x2 area)]" using True by (simp add: upto_rec1)
    show ?thesis
      using "1.IH"[OF True rd rest] read_pixel_Inr[OF rd] by (simp add: tr up)
  next
    case False
    with "1.prems" show ?thesis by (subst (asm) flush_row.simps) simp
  qed
qed

lemma flush_rows_Inr:
  "flush_rows area color_p y = Inr tr \<Longrightarrow>
   tr = concat (map (\<lambda>y'. concat (map (\<lambda>x'. draw_pixel (color_p ! nat (pixel_index area x' y')) x' y')
                                [sint (x1 area)..sint (x2 area)])) [y..sint (y2 area)])"
proof (induction area color_p y arbitrary: tr rule: flush_rows.induct)
  case (1 area color_p y)
  show ?case
  proof (cases "y \<le> sint (y2 area)")
    case True
    from "1.prems" obtain row tr' where rd: "flush_row area color_p y (sint (x1 area)) = Inr row"
      and rest: "flush_rows area color_p (y + 1) = Inr tr'"
      and tr: "tr = row @ tr'"
      by (subst (asm) flush_rows.simps) (auto simp: True split: sum.splits)
    have up: "[y..sint (y2 area)] = y # [y + 1..sint (y2 area)]" using True by (simp add: upto_rec1)
    show ?thesis
      using "1.IH"[OF True rd rest] flush_row_Inr[OF rd] by (simp add: tr up)
  next
    case False
    with "1.prems" show ?thesis by (subst (asm) flush_rows.simps) simp
  qed
qed

lemma sdl_display_flush_Inr:
  assumes "sdl_display_flush area color_p = Inr tr"
  shows "tr = concat (map (\<lambda>(c, x, y). draw_pixel c x y) (area_pixels area color_p)) @ [Lv_disp_flush_ready]"
proof -
  from assms obtain tr' where r: "flush_rows area color_p (sint (y1 area)) = Inr tr'"
    and tr: "tr = tr' @ [Lv_disp_flush_ready]"
    by (auto simp: sdl_display_flush_def split: sum.splits)
  show ?thesis
    using flush_rows_Inr[OF r] by (simp add: tr area_pixels_def map_concat comp_def concat_concat_map)
qed

lemma draw_pixel_no_ready: "Lv_disp_flush_ready \<notin> set (concat (map (\<lambda>(c, x, y). draw_pixel c x y) ps))"
  by (auto simp: draw_pixel_def split: prod.splits)

lemma writes_pixels_pre:
  "writes cur (concat (map (\<lambda>(c, x, y). draw_pixel c x y) ps)) =
   map (\<lambda>(c, x, y). ((x, y), rgba_of c)) ps"
proof (induction ps arbitrary: cur)
  case Nil
  show ?case by simp
next
  case (Cons p ps)
  obtain c x y where p: "p = (c, x, y)" by (cases p)
  obtain r g b a where q: "rgba_of c = (r, g, b, a)" by (cases "rgba_of c")
  show ?case using Cons.IH by (simp add: p q draw_pixel_def)
qed

lemma coords_set:
  "set (concat (map (\<lambda>y. map (\<lambda>x. (x, y)) [a..b]) [c..(d::int)])) = {a..b} \<times> {c..d}"
  by auto




text \<open>
  Claim C4. For a rectangle whose pixels the buffer holds (and a buffer an \<^verbatim>\<open>int\<close>
  can index), the flush callback returns; the calls it makes are the drawing calls
  followed by one \<^verbatim>\<open>lv_disp_flush_ready\<close>, which is the last call and occurs nowhere
  before; the writes of the drawing calls are, row by row, one write at each absolute
  coordinate \<open>(x, y)\<close> of the rectangle, of the colour read at the row-major index
  \<open>(y - y1) * (x2 - x1 + 1) + (x - x1)\<close>; no coordinate is written twice, and the
  coordinates written are exactly those of the rectangle.
\<close>

theorem flush_covers_area_then_ready:
  assumes fit: "area_w area * area_h area \<le> int (length color_p)"
    and len: "int (length color_p) \<le> INT_MAX"
  shows "\<exists>pre. sdl_display_flush area color_p = Inr (pre @ [Lv_disp_flush_ready]) \<and>
           Lv_disp_flush_ready \<notin> set pre \<and>
           writes cur pre =
             concat (map (\<lambda>y. map (\<lambda>x. ((x, y),
                 rgba_of (color_p ! nat ((y - sint (y1 area)) * (sint (x2 area) - sint (x1 area) + 1)
                                          + (x - sint (x1 area))))))
               [sint (x1 area)..sint (x2 area)]) [sint (y1 area)..sint (y2 area)]) \<and>
           distinct (map fst (writes cur pre)) \<and>
           set (map fst (writes cur pre)) =
             {sint (x1 area)..sint (x2 area)} \<times> {sint (y1 area)..sint (y2 area)}"
proof -
  let ?pre = "concat (map (\<lambda>(c, x, y). draw_pixel c x y) (area_pixels area color_p))"
  have w: "writes cur ?pre = map (\<lambda>(c, x, y). ((x, y), rgba_of c)) (area_pixels area color_p)"
    by (rule writes_pixels_pre)
  have co: "map fst (writes cur ?pre) =
      concat (map (\<lambda>y. map (\<lambda>x. (x, y)) [sint (x1 area)..sint (x2 area)]) [sint (y1 area)..sint (y2 area)])"
    unfolding w by (simp add: area_pixels_def map_concat comp_def)
  have "sdl_display_flush area color_p = Inr (?pre @ [Lv_disp_flush_ready])"
    by (rule sdl_display_flush_ok[OF fit len])
  moreover have "Lv_disp_flush_ready \<notin> set ?pre" by (rule draw_pixel_no_ready)
  moreover have "writes cur ?pre =
             concat (map (\<lambda>y. map (\<lambda>x. ((x, y),
                 rgba_of (color_p ! nat ((y - sint (y1 area)) * (sint (x2 area) - sint (x1 area) + 1)
                                          + (x - sint (x1 area))))))
               [sint (x1 area)..sint (x2 area)]) [sint (y1 area)..sint (y2 area)])"
    unfolding w by (simp add: area_pixels_def map_concat comp_def pixel_index_def)
  moreover have "distinct (map fst (writes cur ?pre))"
    unfolding co by (rule coords_distinct) simp_all
  moreover have "set (map fst (writes cur ?pre)) =
             {sint (x1 area)..sint (x2 area)} \<times> {sint (y1 area)..sint (y2 area)}"
    unfolding co by (rule coords_set)
  ultimately show ?thesis by blast
qed

theorem flush_covers_area_then_ready_witness:
  "area_w \<lparr>x1 = 3, y1 = 4, x2 = 4, y2 = 5\<rparr> * area_h \<lparr>x1 = 3, y1 = 4, x2 = 4, y2 = 5\<rparr>
     \<le> int (length [0xFFFF, 0, 0x1234, 0x8000 :: lv_color_t]) \<and>
   int (length [0xFFFF, 0, 0x1234, 0x8000 :: lv_color_t]) \<le> INT_MAX \<and>
   (\<exists>pre. sdl_display_flush \<lparr>x1 = 3, y1 = 4, x2 = 4, y2 = 5\<rparr> [0xFFFF, 0, 0x1234, 0x8000]
            = Inr (pre @ [Lv_disp_flush_ready]) \<and>
          Lv_disp_flush_ready \<notin> set pre \<and>
          writes (0, 0, 0, 0) pre =
            [((3, 4), (248, 252, 248, 255)), ((4, 4), (0, 0, 0, 255)),
             ((3, 5), (16, 68, 160, 255)), ((4, 5), (128, 0, 0, 255))])"
proof -
  let ?a = "\<lparr>x1 = 3, y1 = 4, x2 = 4, y2 = 5\<rparr>"
  let ?p = "[0xFFFF, 0, 0x1234, 0x8000 :: lv_color_t]"
  have h1: "area_w ?a * area_h ?a \<le> int (length ?p)" by (simp add: area_w_def area_h_def)
  have h2: "int (length ?p) \<le> INT_MAX" by (simp add: INT_MAX_def)
  have up: "[3..4] = [3, 4::int]" "[4..5] = [4, 5::int]" by (simp_all add: upto_rec1)
  from flush_covers_area_then_ready[OF h1 h2, of "(0, 0, 0, 0)"]
  obtain pre where "sdl_display_flush ?a ?p = Inr (pre @ [Lv_disp_flush_ready])"
    "Lv_disp_flush_ready \<notin> set pre"
    "writes (0, 0, 0, 0) pre =
            [((3, 4), (248, 252, 248, 255)), ((4, 4), (0, 0, 0, 255)),
             ((3, 5), (16, 68, 160, 255)), ((4, 5), (128, 0, 0, 255))]"
    by (auto simp: up rgba_of_def LV_COLOR_GET_R_def LV_COLOR_GET_G_def LV_COLOR_GET_B_def)
  then show ?thesis using h1 h2 by blast
qed

section \<open>Properties of the input-read callback\<close>

lemma sdl_mouse_read_contract:
  "state (sdl_mouse_read m d) =
     (if mouse_state m AND SDL_BUTTON_LMASK \<noteq> 0 then LV_INDEV_STATE_PRESSED else LV_INDEV_STATE_RELEASED) \<and>
   point_x (sdl_mouse_read m d) = ucast (mouse_x m) \<and>
   point_y (sdl_mouse_read m d) = ucast (mouse_y m)"
  by (simp add: sdl_mouse_read_def Let_def)

text \<open>
  Claim C5. The callback does report the position as \<^verbatim>\<open>SDL_GetMouseState\<close> gave it and
  maps the primary button to pressed (\<open>sdl_mouse_read_contract\<close>), but that position is
  relative to the window, which is twice the logical size. With the primary button held
  at window position (300, 600), a point inside the 344 by 640 window, the toolkit
  receives the point (300, 600), which is outside the 172 by 320 logical display.
\<close>

theorem sdl_mouse_read_outside_logical_space:
  "in_window \<lparr>mouse_state = 1, mouse_x = 300, mouse_y = 600\<rparr> \<and>
   sdl_mouse_read \<lparr>mouse_state = 1, mouse_x = 300, mouse_y = 600\<rparr>
       \<lparr>point_x = 0, point_y = 0, state = LV_INDEV_STATE_RELEASED\<rparr>
     = \<lparr>point_x = 300, point_y = 600, state = LV_INDEV_STATE_PRESSED\<rparr> \<and>
   \<not> in_logical_space (sdl_mouse_read \<lparr>mouse_state = 1, mouse_x = 300, mouse_y = 600\<rparr>
       \<lparr>point_x = 0, point_y = 0, state = LV_INDEV_STATE_RELEASED\<rparr>)"
  by (simp add: in_window_def in_logical_space_def sdl_mouse_read_def SDL_BUTTON_LMASK_def
      SCREEN_WIDTH_def SCREEN_HEIGHT_def)

section \<open>Properties of the time formatter\<close>











lemma length_dec_nat: "0 < k \<Longrightarrow> n < 10 ^ k \<Longrightarrow> length (dec_nat n) \<le> k"
proof (induction k arbitrary: n)
  case 0
  then show ?case by simp
next
  case (Suc k)
  show ?case
  proof (cases "n < 10")
    case True
    then show ?thesis by (subst dec_nat.simps) simp
  next
    case False
    then have k: "0 < k" using Suc.prems by (cases k) auto
    have "n div 10 < 10 ^ k" using Suc.prems by (simp add: less_mult_imp_div_less mult.commute)
    then have "length (dec_nat (n div 10)) \<le> k" using Suc.IH k by simp
    then show ?thesis by (subst dec_nat.simps) (simp add: False)
  qed
qed

lemma int_wrap_ok: "int_ok (int_wrap v)"
  by (simp add: int_wrap_def int_ok_def INT_MIN_def INT_MAX_def)


lemma length_dec_int: "int_ok v \<Longrightarrow> length (dec_int v) \<le> 11"
proof -
  assume "int_ok v"
  then have "- 2147483648 \<le> v" "v \<le> 2147483647"
    by (simp_all add: int_ok_def INT_MIN_def INT_MAX_def)
  then have b: "nat v < 10 ^ 10" "nat (- v) < 10 ^ 10"
    by simp_all
  show ?thesis using length_dec_nat[OF _ b(1)] length_dec_nat[OF _ b(2)]
    by (simp add: dec_int_def)
qed


lemma length_wday_name: "i < 7 \<Longrightarrow> length (wday_names ! i) = 3"
proof -
  have "list_all (\<lambda>s. length s = 3) wday_names" by (simp add: wday_names_def)
  moreover assume "i < 7"
  ultimately show ?thesis by (simp add: list_all_length wday_names_def)
qed

lemma length_mon_name: "i < 12 \<Longrightarrow> length (mon_names ! i) = 3"
proof -
  have "list_all (\<lambda>s. length s = 3) mon_names" by (simp add: mon_names_def)
  moreover assume "i < 12"
  ultimately show ?thesis by (simp add: list_all_length mon_names_def)
qed


lemma strftime_clock:
  assumes "valid_tm t"
  shows "strftime 32 ''%H:%M:%S'' t =
         Some (pad2 (nat (tm_hour t)) @ '':'' @ pad2 (nat (tm_min t)) @ '':'' @ pad2 (nat (tm_sec t)))"
  using assms
  by (simp add: strftime_def strftime_conv_def field2_def valid_tm_def pad2_def)

lemma strftime_date:
  assumes "valid_tm t"
  shows "strftime 64 ''%a, %b %d %Y'' t =
         Some (wday_names ! nat (tm_wday t) @ '', '' @ mon_names ! nat (tm_mon t) @ '' '' @
               pad2 (nat (tm_mday t)) @ '' '' @ dec_int (int_wrap (tm_year t + 1900)))"
proof -
  have ok: "int_ok (tm_year t)" using assms by (simp add: valid_tm_def int_ok_def)
  have wl: "length (wday_names ! nat (tm_wday t)) = 3"
    if "0 \<le> tm_wday t" "tm_wday t \<le> 6"
    using that by (intro length_wday_name) simp
  have ml: "length (mon_names ! nat (tm_mon t)) = 3"
    if "0 \<le> tm_mon t" "tm_mon t \<le> 11"
    using that by (intro length_mon_name) simp
  show ?thesis
    using assms length_dec_int[OF int_wrap_ok, of "tm_year t + 1900"] ok wl ml
    by (simp add: strftime_def strftime_conv_def field2_def valid_tm_def pad2_def)
qed




subsection \<open>The calendar of the broken-down time\<close>















section \<open>Properties of startup\<close>

text \<open>
  Claim C7. If \<^verbatim>\<open>SDL_Init\<close> fails, \<open>main\<close> prints the diagnostic and returns 1 with
  nothing torn down; if the window cannot be created it prints, calls \<^verbatim>\<open>SDL_Quit\<close>
  and returns 1; if the renderer cannot be created it prints, destroys the window, calls
  \<^verbatim>\<open>SDL_Quit\<close> and returns 1. Each platform call is made once (no retry), the result
  does not depend on the loop's inputs, and in the final state the toolkit holds no
  object and no timer and every screen and label handle is still null. Before the
  failure only the two banner lines are printed.
\<close>

theorem startup_failure_handling:
  "(sdl_init_rc env \<noteq> 0 \<longrightarrow>
      main env inputs = Exited 1 (app0\<lparr>calls := calls (banner app0) @
        [SDL_Init, Printf (''SDL_Init Error: '' @ sdl_error env @ ''\<newline>'')]\<rparr>)) \<and>
   (sdl_init_rc env = 0 \<and> new_window env = None \<longrightarrow>
      main env inputs = Exited 1 (app0\<lparr>calls := calls (banner app0) @
        [SDL_Init, SDL_CreateWindow ''LVGL Watch Simulator'' 344 640,
         Printf (''SDL_CreateWindow Error: '' @ sdl_error env @ ''\<newline>''), SDL_Quit]\<rparr>)) \<and>
   (sdl_init_rc env = 0 \<and> new_window env = Some w \<and> new_renderer env = None \<longrightarrow>
      main env inputs = Exited 1 (app0\<lparr>window := Some w, calls := calls (banner app0) @
        [SDL_Init, SDL_CreateWindow ''LVGL Watch Simulator'' 344 640, SDL_CreateRenderer,
         Printf (''SDL_CreateRenderer Error: '' @ sdl_error env @ ''\<newline>''),
         SDL_DestroyWindow, SDL_Quit]\<rparr>)) \<and>
   objs app0 = [] \<and> timers app0 = [] \<and> loading_screen app0 = None \<and> time_screen app0 = None \<and>
   time_label app0 = None \<and> date_label app0 = None \<and>
   calls (banner app0) =
     [Printf ''Starting LVGL Watch Application...\<newline>'',
      Printf (''Target display: 1.47'' @ [CHR 0x22] @ '' (172x320)\<newline>'')]"
  by (simp add: main_def Let_def emit_def banner_def app0_def SCREEN_WIDTH_def SCREEN_HEIGHT_def
      dec_int_def dec_nat.simps digit_char_def)

theorem startup_failure_handling_witness:
  "main \<lparr>sdl_init_rc = - 1, sdl_error = ''no video'', new_window = None, new_renderer = None,
         boot_tick = 0, boot_time = \<lparr>tm_sec = 0, tm_min = 0, tm_hour = 0, tm_mday = 1, tm_mon = 0,
           tm_year = 126, tm_wday = 4\<rparr>\<rparr> []
     = Exited 1 (app0\<lparr>calls := calls (banner app0) @
         [SDL_Init, Printf ''SDL_Init Error: no video\<newline>'']\<rparr>) \<and>
   main \<lparr>sdl_init_rc = 0, sdl_error = ''no window'', new_window = None, new_renderer = None,
         boot_tick = 0, boot_time = \<lparr>tm_sec = 0, tm_min = 0, tm_hour = 0, tm_mday = 1, tm_mon = 0,
           tm_year = 126, tm_wday = 4\<rparr>\<rparr> []
     = Exited 1 (app0\<lparr>calls := calls (banner app0) @
         [SDL_Init, SDL_CreateWindow ''LVGL Watch Simulator'' 344 640,
          Printf ''SDL_CreateWindow Error: no window\<newline>'', SDL_Quit]\<rparr>) \<and>
   main \<lparr>sdl_init_rc = 0, sdl_error = ''no renderer'', new_window = Some 1, new_renderer = None,
         boot_tick = 0, boot_time = \<lparr>tm_sec = 0, tm_min = 0, tm_hour = 0, tm_mday = 1, tm_mon = 0,
           tm_year = 126, tm_wday = 4\<rparr>\<rparr> []
     = Exited 1 (app0\<lparr>window := Some 1, calls := calls (banner app0) @
         [SDL_Init, SDL_CreateWindow ''LVGL Watch Simulator'' 344 640, SDL_CreateRenderer,
          Printf ''SDL_CreateRenderer Error: no renderer\<newline>'', SDL_DestroyWindow, SDL_Quit]\<rparr>)"
  using
    startup_failure_handling[of "\<lparr>sdl_init_rc = - 1, sdl_error = ''no video'', new_window = None,
       new_renderer = None, boot_tick = 0, boot_time = \<lparr>tm_sec = 0, tm_min = 0, tm_hour = 0,
       tm_mday = 1, tm_mon = 0, tm_year = 126, tm_wday = 4\<rparr>\<rparr>" "[]" 1]
    startup_failure_handling[of "\<lparr>sdl_init_rc = 0, sdl_error = ''no window'', new_window = None,
       new_renderer = None, boot_tick = 0, boot_time = \<lparr>tm_sec = 0, tm_min = 0, tm_hour = 0,
       tm_mday = 1, tm_mon = 0, tm_year = 126, tm_wday = 4\<rparr>\<rparr>" "[]" 1]
    startup_failure_handling[of "\<lparr>sdl_init_rc = 0, sdl_error = ''no renderer'', new_window = Some 1,
       new_renderer = None, boot_tick = 0, boot_time = \<lparr>tm_sec = 0, tm_min = 0, tm_hour = 0,
       tm_mday = 1, tm_mon = 0, tm_year = 126, tm_wday = 4\<rparr>\<rparr>" "[]" 1]
  by simp

section \<open>The event loop and its invariant\<close>

subsection \<open>The two callbacks on usable handles\<close>

lemma seq_simps [simp]: "seq (Inl e) f = Inl e" "seq (Inr v) f = f v"
  by (simp_all add: seq_def)

lemma update_time_display_ok:
  assumes v: "valid_tm t"
    and h: "time_label st = Some tlab" "date_label st = Some dlab"
    and b: "tlab < length (objs st)" "dlab < length (objs st)"
  shows "\<exists>clock date. strftime 32 ''%H:%M:%S'' t = Some clock \<and>
           strftime 64 ''%a, %b %d %Y'' t = Some date \<and>
           update_time_display t st =
             Inr (st\<lparr>objs := ((objs st)[tlab := (objs st ! tlab)\<lparr>label_text := Some clock\<rparr>])
                    [dlab := (((objs st)[tlab := (objs st ! tlab)\<lparr>label_text := Some clock\<rparr>]) ! dlab)
                             \<lparr>label_text := Some date\<rparr>]\<rparr>)"
proof -
  obtain clock where c: "strftime 32 ''%H:%M:%S'' t = Some clock" using strftime_clock[OF v] by simp
  obtain date where d: "strftime 64 ''%a, %b %d %Y'' t = Some date" using strftime_date[OF v] by simp
  show ?thesis
    using h b by (simp add: c d update_time_display_def lv_label_set_text_def with_obj_def)
qed

lemma update_time_display_cases:
  assumes h: "time_label st = Some a" "date_label st = Some b"
    and b: "a < length (objs st)" "b < length (objs st)"
  shows "(\<exists>st'. update_time_display t st = Inr st' \<and> refreshed st st') \<or>
         update_time_display t st = Inl Truncated"
proof (cases "strftime 32 ''%H:%M:%S'' t")
  case None
  then show ?thesis by (simp add: update_time_display_def)
next
  case (Some clock)
  show ?thesis
  proof (cases "strftime 64 ''%a, %b %d %Y'' t")
    case None
    then show ?thesis
      using h b by (simp add: update_time_display_def Some lv_label_set_text_def with_obj_def)
  next
    case (Some date)
    have u: "update_time_display t st =
             Inr (st\<lparr>objs := ((objs st)[a := (objs st ! a)\<lparr>label_text := Some clock\<rparr>])
                    [b := (((objs st)[a := (objs st ! a)\<lparr>label_text := Some clock\<rparr>]) ! b)
                             \<lparr>label_text := Some date\<rparr>]\<rparr>)"
      using h b
      by (simp add: update_time_display_def \<open>strftime 32 ''%H:%M:%S'' t = Some clock\<close> Some
          lv_label_set_text_def with_obj_def)
    show ?thesis
      unfolding u refreshed_def using b by (auto simp: nth_list_update)
  qed
qed

lemma update_time_display_refreshed:
  assumes v: "valid_tm t"
    and h: "time_label st = Some tlab" "date_label st = Some dlab"
    and b: "tlab < length (objs st)" "dlab < length (objs st)"
  shows "\<exists>st'. update_time_display t st = Inr st' \<and> refreshed st st'"
proof -
  from update_time_display_ok[OF v h b] obtain clock date where
    u: "update_time_display t st =
             Inr (st\<lparr>objs := ((objs st)[tlab := (objs st ! tlab)\<lparr>label_text := Some clock\<rparr>])
                    [dlab := (((objs st)[tlab := (objs st ! tlab)\<lparr>label_text := Some clock\<rparr>]) ! dlab)
                             \<lparr>label_text := Some date\<rparr>]\<rparr>)"
    by blast
  show ?thesis
    unfolding u refreshed_def using b by (auto simp: nth_list_update)
qed

lemma refreshed_flags:
  assumes "refreshed st st'" "i < length (objs st)"
  shows "obj_flags (objs st' ! i) = obj_flags (objs st ! i)"
proof -
  from assms have "objs st' ! i = (objs st ! i)\<lparr>label_text := label_text (objs st' ! i)\<rparr>"
    by (simp add: refreshed_def)
  from arg_cong[OF this, of obj_flags] show ?thesis by simp
qed

lemma refreshed_frame:
  assumes "refreshed st st'"
  shows "timers st' = timers st" "calls st' = calls st" "tick st' = tick st"
    "loading_screen st' = loading_screen st" "time_screen st' = time_screen st"
    "time_label st' = time_label st" "date_label st' = date_label st"
    "loading_timer st' = loading_timer st" "clock_timer st' = clock_timer st"
    "window st' = window st" "renderer st' = renderer st" "act_scr st' = act_scr st"
    "visible h st' = visible h st"
proof -
  from assms have e: "st' = st\<lparr>objs := objs st'\<rparr>" and len: "length (objs st') = length (objs st)"
    by (simp_all add: refreshed_def)
  show "timers st' = timers st" by (subst e) simp
  show "calls st' = calls st" by (subst e) simp
  show "tick st' = tick st" by (subst e) simp
  show "loading_screen st' = loading_screen st" by (subst e) simp
  show "time_screen st' = time_screen st" by (subst e) simp
  show "time_label st' = time_label st" by (subst e) simp
  show "date_label st' = date_label st" by (subst e) simp
  show "loading_timer st' = loading_timer st" by (subst e) simp
  show "clock_timer st' = clock_timer st" by (subst e) simp
  show "window st' = window st" by (subst e) simp
  show "renderer st' = renderer st" by (subst e) simp
  show "act_scr st' = act_scr st" by (subst e) simp
  show "visible h st' = visible h st"
    using refreshed_flags[OF assms] len by (auto simp: visible_def split: option.splits)
qed

lemma loading_timer_cb_ok:
  assumes "loading_screen st = Some l" "time_screen st = Some c"
    and "l < length (objs st)" "c < length (objs st)"
  shows "loading_timer_cb st =
     Inr (st\<lparr>objs := ((objs st)[l := (objs st ! l)\<lparr>obj_flags := insert LV_OBJ_FLAG_HIDDEN (obj_flags (objs st ! l))\<rparr>])
                [c := (((objs st)[l := (objs st ! l)\<lparr>obj_flags := insert LV_OBJ_FLAG_HIDDEN (obj_flags (objs st ! l))\<rparr>]) ! c)
                        \<lparr>obj_flags := obj_flags (((objs st)[l := (objs st ! l)\<lparr>obj_flags := insert LV_OBJ_FLAG_HIDDEN (obj_flags (objs st ! l))\<rparr>]) ! c) - {LV_OBJ_FLAG_HIDDEN}\<rparr>],
            calls := calls st @ [transition_msg]\<rparr>)"
  using assms
  by (simp add: loading_timer_cb_def lv_obj_add_flag_def lv_obj_clear_flag_def with_obj_def emit_def
      transition_msg_def)

lemma loading_timer_cb_atomic:
  assumes "ready s" "loading_screen s \<noteq> time_screen s" "loading_timer_cb s = Inr s'"
  shows "\<not> visible (loading_screen s') s' \<and> visible (time_screen s') s' \<and>
         switched s' = Suc (switched s)"
proof -
  from assms(1,2) obtain l c where h: "loading_screen s = Some l" "time_screen s = Some c"
    "l < length (objs s)" "c < length (objs s)" "l \<noteq> c"
    by (auto simp: ready_def handle_ok_def split: option.splits)
  from assms(3) loading_timer_cb_ok[OF h(1,2,3,4)] have
    "s' = s\<lparr>objs := ((objs s)[l := (objs s ! l)\<lparr>obj_flags := insert LV_OBJ_FLAG_HIDDEN (obj_flags (objs s ! l))\<rparr>])
                [c := (((objs s)[l := (objs s ! l)\<lparr>obj_flags := insert LV_OBJ_FLAG_HIDDEN (obj_flags (objs s ! l))\<rparr>]) ! c)
                        \<lparr>obj_flags := obj_flags (((objs s)[l := (objs s ! l)\<lparr>obj_flags := insert LV_OBJ_FLAG_HIDDEN (obj_flags (objs s ! l))\<rparr>]) ! c) - {LV_OBJ_FLAG_HIDDEN}\<rparr>],
            calls := calls s @ [transition_msg]\<rparr>"
    by simp
  then show ?thesis using h by (simp add: visible_def switched_def)
qed

lemma ready_handles:
  assumes "ready st"
  shows "loading_screen st \<noteq> None \<and> time_screen st \<noteq> None \<and> time_label st \<noteq> None \<and>
         date_label st \<noteq> None"
  using assms by (auto simp: ready_def handle_ok_def split: option.splits)

lemma ready_loading_timer_cb:
  assumes "ready st"
  shows "\<exists>st'. loading_timer_cb st = Inr st'"
proof -
  from assms obtain l c where "loading_screen st = Some l" "time_screen st = Some c"
    "l < length (objs st)" "c < length (objs st)"
    by (auto simp: ready_def handle_ok_def split: option.splits)
  from loading_timer_cb_ok[OF this] show ?thesis by simp
qed

lemma ready_update_time_display:
  assumes "ready st"
  shows "update_time_display t st \<noteq> Inl NullHandle \<and> update_time_display t st \<noteq> Inl BadHandle \<and>
         (valid_tm t \<longrightarrow> (\<exists>st'. update_time_display t st = Inr st'))"
proof -
  from assms obtain a b where h: "time_label st = Some a" "date_label st = Some b"
    "a < length (objs st)" "b < length (objs st)"
    by (auto simp: ready_def handle_ok_def split: option.splits)
  have "update_time_display t st \<noteq> Inl NullHandle \<and> update_time_display t st \<noteq> Inl BadHandle"
    using h by (simp add: update_time_display_def lv_label_set_text_def with_obj_def split: option.splits)
  moreover have "\<exists>st'. update_time_display t st = Inr st'" if "valid_tm t"
    using update_time_display_ok[OF that h] by blast
  ultimately show ?thesis by blast
qed

subsection \<open>Startup establishes the invariant\<close>

lemmas toolkit_defs =
  lv_obj_create_def lv_label_create_def alloc_obj_def lv_scr_act_def lv_obj_set_size_def
  lv_obj_align_def lv_obj_add_flag_def lv_obj_clear_flag_def lv_obj_set_style_bg_color_def
  lv_obj_set_style_border_width_def lv_obj_set_style_text_color_def
  lv_obj_set_style_text_font_def lv_label_set_text_def lv_timer_create_def
  lv_timer_set_repeat_count_def with_obj_def new_obj_def

lemma startup_ok:
  assumes "objs st = []" "timers st = []"
    and "strftime 32 ''%H:%M:%S'' (boot_time env) = Some clock"
    and "strftime 64 ''%a, %b %d %Y'' (boot_time env) = Some date"
  shows "startup env st = Inr (booted env clock date st)"
proof -
  have n: "Suc (Suc 0) = 2" "Suc (Suc (Suc 0)) = 3" "Suc (Suc (Suc (Suc 0))) = 4"
    "Suc (Suc (Suc (Suc (Suc 0)))) = 5"
    by simp_all
  show ?thesis
  using assms
  by (simp add: n lv_color_make_def startup_def create_loading_screen_def create_time_screen_def update_time_display_def
      lv_init_def lv_disp_drv_register_def lv_indev_drv_register_def emit_def
      toolkit_defs Let_def SCREEN_WIDTH_def SCREEN_HEIGHT_def booted_def
      lv_color_black_def lv_color_white_def)
qed

lemma startup_Inr:
  assumes "startup env st = Inr st0" "objs st = []" "timers st = []"
  shows "\<exists>clock date. st0 = booted env clock date st"
proof (cases "strftime 32 ''%H:%M:%S'' (boot_time env)")
  case None
  have "startup env st = Inl Truncated"
    using assms(2,3)
    by (simp add: None startup_def create_loading_screen_def create_time_screen_def
        update_time_display_def lv_init_def lv_disp_drv_register_def lv_indev_drv_register_def
        emit_def toolkit_defs Let_def)
  with assms(1) show ?thesis by simp
next
  case (Some clock)
  show ?thesis
  proof (cases "strftime 64 ''%a, %b %d %Y'' (boot_time env)")
    case None
    have "startup env st = Inl Truncated"
      using assms(2,3)
      by (simp add: None Some startup_def create_loading_screen_def create_time_screen_def
          update_time_display_def lv_init_def lv_disp_drv_register_def lv_indev_drv_register_def
          emit_def toolkit_defs Let_def)
    with assms(1) show ?thesis by simp
  next
    case (Some date)
    from startup_ok[OF assms(2,3) \<open>strftime 32 ''%H:%M:%S'' (boot_time env) = Some clock\<close> Some] assms(1)
    show ?thesis by auto
  qed
qed

lemma booted_inv: "loop_inv (boot_tick env) (booted env clock date (platform_up env))"
  by (simp add: loop_inv_def booted_def ready_def handle_ok_def switched_def transition_msg_def
      visible_def platform_up_def emit_def banner_def app0_def)

lemma booted_splash:
  "loading_timer (booted env clock date st) = Some 0"
  "timers (booted env clock date st) ! 0 =
     Some \<lparr>timer_cb = Loading_timer_cb, period = 4000, last_run = boot_tick env, repeat_count = 1\<rparr>"
  by (simp_all add: booted_def)

subsection \<open>What the invariant depends on\<close>

lemma loop_inv_handles:
  assumes "loop_inv t0 st"
  obtains l c tlab dlab where "loading_screen st = Some l" "time_screen st = Some c"
    "time_label st = Some tlab" "date_label st = Some dlab"
    "l < length (objs st)" "c < length (objs st)" "tlab < length (objs st)" "dlab < length (objs st)"
    "l \<noteq> c"
  using assms
  by (auto simp: loop_inv_def ready_def handle_ok_def split: option.splits)

lemma loop_inv_objs:
  assumes "loop_inv t0 st" "length os = length (objs st)"
    and "\<And>i. i < length os \<Longrightarrow> obj_flags (os ! i) = obj_flags (objs st ! i)"
  shows "loop_inv t0 (st\<lparr>objs := os\<rparr>)"
  using assms
  by (auto simp: loop_inv_def ready_def handle_ok_def visible_def switched_def split: option.splits)

lemma refreshed_inv:
  assumes "loop_inv t0 st" "refreshed st st'"
  shows "loop_inv t0 st'"
proof -
  from assms(2) have e: "st' = st\<lparr>objs := objs st'\<rparr>" and len: "length (objs st') = length (objs st)"
    by (simp_all add: refreshed_def)
  have "loop_inv t0 (st\<lparr>objs := objs st'\<rparr>)"
    by (rule loop_inv_objs[OF assms(1) len]) (simp add: refreshed_flags[OF assms(2)] len)
  then show ?thesis using e by simp
qed

lemma loop_inv_calls:
  assumes "loop_inv t0 st" "count_list cs transition_msg = switched st"
  shows "loop_inv t0 (st\<lparr>calls := cs\<rparr>)"
  using assms
  by (auto simp: loop_inv_def ready_def handle_ok_def visible_def switched_def split: option.splits)

lemma loop_inv_tick: "loop_inv t0 st \<Longrightarrow> loop_inv t0 (st\<lparr>tick := n\<rparr>)"
  by (auto simp: loop_inv_def ready_def handle_ok_def visible_def switched_def split: option.splits)

lemma loop_inv_visible:
  assumes "loop_inv t0 st"
  shows "(if switched st = 0 then visible (loading_screen st) st \<and> \<not> visible (time_screen st) st
          else \<not> visible (loading_screen st) st \<and> visible (time_screen st) st)"
    and "visible (loading_screen st) st \<noteq> visible (time_screen st) st"
  using assms by (auto simp: loop_inv_def split: if_splits)

lemma loop_inv_splash:
  assumes "loop_inv t0 st"
  shows "timers st ! 0 =
     (if switched st = 0
      then Some \<lparr>timer_cb = Loading_timer_cb, period = 4000, last_run = t0, repeat_count = 1\<rparr>
      else None)"
  using assms by (auto simp: loop_inv_def split: if_splits)

subsection \<open>One invocation of the handler\<close>

text \<open>
  The splash timer (slot 0) fires when it is pending and due, and is otherwise left
  alone; the clock timer (slot 1) refreshes the labels when it is due; the redraw only
  adds drawing calls.
\<close>

lemma exec_splash_due:
  assumes inv: "loop_inv t0 st" and sw: "switched st = 0" and due: "t0 + 4000 \<le> tick st"
  shows "\<exists>st'. lv_timer_exec 0 timeinfo st = Inr st' \<and> loop_inv t0 st' \<and>
           calls st' = calls st @ [transition_msg] \<and> tick st' = tick st"
proof -
  from inv obtain l c tlab dlab where h: "loading_screen st = Some l" "time_screen st = Some c"
    "time_label st = Some tlab" "date_label st = Some dlab"
    "l < length (objs st)" "c < length (objs st)" "tlab < length (objs st)" "dlab < length (objs st)"
    "l \<noteq> c"
    by (rule loop_inv_handles)
  from inv sw have t: "timers st ! 0 = Some \<lparr>timer_cb = Loading_timer_cb, period = 4000, last_run = t0,
                                repeat_count = 1\<rparr>" and len: "length (timers st) = 2"
    by (simp_all add: loop_inv_def)
  let ?st1 = "st\<lparr>timers := (timers st)[0 := Some \<lparr>timer_cb = Loading_timer_cb, period = 4000,
                   last_run = tick st, repeat_count = 0\<rparr>]\<rparr>"
  have cb: "loading_timer_cb ?st1 = Inr (?st1\<lparr>objs := ((objs st)[l := (objs st ! l)\<lparr>obj_flags := insert LV_OBJ_FLAG_HIDDEN (obj_flags (objs st ! l))\<rparr>])
                [c := (objs st ! c)\<lparr>obj_flags := obj_flags (objs st ! c) - {LV_OBJ_FLAG_HIDDEN}\<rparr>],
            calls := calls st @ [transition_msg]\<rparr>)"
    using loading_timer_cb_ok[of ?st1 l c] h by simp
  let ?st' = "st\<lparr>timers := (timers st)[0 := None],
       objs := ((objs st)[l := (objs st ! l)\<lparr>obj_flags := insert LV_OBJ_FLAG_HIDDEN (obj_flags (objs st ! l))\<rparr>])
                [c := (objs st ! c)\<lparr>obj_flags := obj_flags (objs st ! c) - {LV_OBJ_FLAG_HIDDEN}\<rparr>],
            calls := calls st @ [transition_msg]\<rparr>"
  have e: "lv_timer_exec 0 timeinfo st = Inr ?st'"
    using due by (simp add: lv_timer_exec_def len t Let_def run_cb_def cb)
  have i: "loop_inv t0 ?st'"
    using inv h sw
    by (simp add: loop_inv_def ready_def handle_ok_def visible_def switched_def)
  show ?thesis using e i by simp
qed

lemma exec_splash_idle:
  assumes inv: "loop_inv t0 st" and nd: "\<not> (switched st = 0 \<and> t0 + 4000 \<le> tick st)"
  shows "lv_timer_exec 0 timeinfo st = Inr st"
proof (cases "switched st = 0")
  case True
  with inv have t: "timers st ! 0 = Some \<lparr>timer_cb = Loading_timer_cb, period = 4000, last_run = t0,
                                repeat_count = 1\<rparr>" and len: "length (timers st) = 2"
    by (simp_all add: loop_inv_def)
  from nd True have "\<not> t0 + 4000 \<le> tick st" by simp
  then have "\<not> 4000 \<le> tick st - t0" by linarith
  then show ?thesis by (simp add: lv_timer_exec_def len t)
next
  case False
  with inv have t: "timers st ! 0 = None" and len: "length (timers st) = 2"
    by (simp_all add: loop_inv_def)
  then show ?thesis by (simp add: lv_timer_exec_def len t)
qed

lemma exec_splash_total:
  assumes inv: "loop_inv t0 st"
  shows "\<exists>st'. lv_timer_exec 0 timeinfo st = Inr st' \<and> loop_inv t0 st' \<and>
           switched st \<le> switched st'"
proof (cases "switched st = 0 \<and> t0 + 4000 \<le> tick st")
  case True
  then show ?thesis using exec_splash_due[OF inv, of timeinfo] by (auto simp: switched_def)
next
  case False
  then show ?thesis using exec_splash_idle[OF inv False, of timeinfo] inv by simp
qed

lemma exec_clock:
  assumes inv: "loop_inv t0 st" and v: "valid_tm timeinfo"
  shows "\<exists>st'. lv_timer_exec (Suc 0) timeinfo st = Inr st' \<and> loop_inv t0 st' \<and>
           calls st' = calls st \<and> tick st' = tick st"
proof -
  from inv obtain l c tlab dlab where h: "loading_screen st = Some l" "time_screen st = Some c"
    "time_label st = Some tlab" "date_label st = Some dlab"
    "l < length (objs st)" "c < length (objs st)" "tlab < length (objs st)" "dlab < length (objs st)"
    "l \<noteq> c"
    by (rule loop_inv_handles)
  from inv obtain ck where t: "timers st ! Suc 0 = Some ck" and ck: "timer_cb ck = Clock_update_cb"
    "period ck = 1000" "repeat_count ck = - 1" and len: "length (timers st) = 2"
    by (auto simp: loop_inv_def split: option.splits)
  show ?thesis
  proof (cases "1000 \<le> tick st - last_run ck")
    case False
    then have "lv_timer_exec (Suc 0) timeinfo st = Inr st"
      by (simp add: lv_timer_exec_def len t ck)
    then show ?thesis using inv by simp
  next
    case True
    let ?st1 = "st\<lparr>timers := (timers st)[Suc 0 := Some (ck\<lparr>last_run := tick st, repeat_count := - 1\<rparr>)]\<rparr>"
    have i1: "loop_inv t0 ?st1"
      using inv h t ck len
      by (auto simp: loop_inv_def ready_def handle_ok_def visible_def switched_def split: if_splits)
    from update_time_display_refreshed[OF v, of ?st1 tlab dlab] h
    obtain st2 where u: "update_time_display timeinfo ?st1 = Inr st2" and r: "refreshed ?st1 st2"
      by auto
    have e: "lv_timer_exec (Suc 0) timeinfo st = Inr st2"
      using True by (simp add: lv_timer_exec_def len t ck Let_def run_cb_def clock_update_cb_def u)
    from r have "st2 = ?st1\<lparr>objs := objs st2\<rparr>" by (simp add: refreshed_def)
    then have "calls st2 = calls ?st1" "tick st2 = tick ?st1"
      by (metis app.select_convs(13) app.surjective app.update_convs(9),
          metis app.select_convs(12) app.surjective app.update_convs(9))
    then show ?thesis using e refreshed_inv[OF i1 r] by simp
  qed
qed

lemma exec_clock_cases:
  assumes inv: "loop_inv t0 st"
  shows "(\<exists>st'. lv_timer_exec (Suc 0) timeinfo st = Inr st' \<and> loop_inv t0 st' \<and>
            switched st' = switched st) \<or>
         lv_timer_exec (Suc 0) timeinfo st = Inl Truncated"
proof -
  from inv obtain l c tlab dlab where h: "loading_screen st = Some l" "time_screen st = Some c"
    "time_label st = Some tlab" "date_label st = Some dlab"
    "l < length (objs st)" "c < length (objs st)" "tlab < length (objs st)" "dlab < length (objs st)"
    "l \<noteq> c"
    by (rule loop_inv_handles)
  from inv obtain ck where t: "timers st ! Suc 0 = Some ck" and ck: "timer_cb ck = Clock_update_cb"
    "period ck = 1000" "repeat_count ck = - 1" and len: "length (timers st) = 2"
    by (auto simp: loop_inv_def split: option.splits)
  show ?thesis
  proof (cases "1000 \<le> tick st - last_run ck")
    case False
    then have "lv_timer_exec (Suc 0) timeinfo st = Inr st"
      by (simp add: lv_timer_exec_def len t ck)
    then show ?thesis using inv by simp
  next
    case True
    let ?st1 = "st\<lparr>timers := (timers st)[Suc 0 := Some (ck\<lparr>last_run := tick st, repeat_count := - 1\<rparr>)]\<rparr>"
    have i1: "loop_inv t0 ?st1"
      using inv h t ck len
      by (auto simp: loop_inv_def ready_def handle_ok_def visible_def switched_def split: if_splits)
    have e: "lv_timer_exec (Suc 0) timeinfo st = update_time_display timeinfo ?st1"
      using True
      by (cases "update_time_display timeinfo ?st1")
         (simp_all add: lv_timer_exec_def len t ck Let_def run_cb_def clock_update_cb_def)
    from update_time_display_cases[of ?st1 tlab dlab timeinfo] h
    consider st2 where "update_time_display timeinfo ?st1 = Inr st2" "refreshed ?st1 st2"
      | "update_time_display timeinfo ?st1 = Inl Truncated"
      by auto
    then show ?thesis
    proof cases
      case 1
      from refreshed_frame(2)[OF 1(2)] have "switched st2 = switched st" by (simp add: switched_def)
      then show ?thesis using e 1(1) refreshed_inv[OF i1 1(2)] by simp
    next
      case 2
      then show ?thesis using e by simp
    qed
  qed
qed

lemma draw_calls_handler:
  "list_all handler_call (concat (map (\<lambda>(c, x, y). draw_pixel c x y) ps))"
  by (induction ps) (auto simp: draw_pixel_def handler_call_def split: prod.splits)

lemma draw_calls_no_msg:
  "count_list (concat (map (\<lambda>(c, x, y). draw_pixel c x y) ps)) transition_msg = 0"
  by (induction ps) (auto simp: draw_pixel_def transition_msg_def split: prod.splits)

lemma refr_ok:
  assumes "list_all flush_fits rs"
  shows "\<exists>tr. lv_refr rs st = Inr (st\<lparr>calls := calls st @ tr\<rparr>) \<and> list_all handler_call tr \<and>
           count_list tr transition_msg = 0"
  using assms
proof (induction rs arbitrary: st)
  case Nil
  have "lv_refr [] st = Inr (st\<lparr>calls := calls st @ []\<rparr>)" by simp
  then show ?case by (intro exI[of _ "[]"]) simp
next
  case (Cons r rs)
  obtain area color_p where r: "r = (area, color_p)" by (cases r)
  from Cons.prems have fr: "flush_fits r" and rest: "list_all flush_fits rs"
    by simp_all
  from fr have fit: "area_w area * area_h area \<le> int (length color_p)"
    "int (length color_p) \<le> INT_MAX"
    by (simp_all add: r flush_fits_def)
  let ?tr = "concat (map (\<lambda>(c, x, y). draw_pixel c x y) (area_pixels area color_p)) @ [Lv_disp_flush_ready]"
  have f: "sdl_display_flush area color_p = Inr ?tr" by (rule sdl_display_flush_ok[OF fit])
  from Cons.IH[OF rest, of "st\<lparr>calls := calls st @ ?tr\<rparr>"]
  obtain tr' where s: "lv_refr rs (st\<lparr>calls := calls st @ ?tr\<rparr>) =
      Inr (st\<lparr>calls := calls st @ ?tr @ tr'\<rparr>)" and hc: "list_all handler_call tr'"
    and nm: "count_list tr' transition_msg = 0"
    by auto
  have "lv_refr (r # rs) st = Inr (st\<lparr>calls := calls st @ (?tr @ tr')\<rparr>)"
    by (simp add: r f s)
  moreover have "list_all handler_call (?tr @ tr')"
    using hc draw_calls_handler by (simp add: handler_call_def)
  moreover have "count_list (?tr @ tr') transition_msg = 0"
    using nm draw_calls_no_msg by (simp add: transition_msg_def)
  ultimately show ?case by blast
qed

lemma read_pixel_err:
  "read_pixel area color_p x y = Inl e \<Longrightarrow> e = IntOverflow \<or> e = OutOfBounds"
  by (auto simp: read_pixel_def Let_def split: if_splits)

lemma flush_row_err:
  "flush_row area color_p y x = Inl e \<Longrightarrow> e = IntOverflow \<or> e = OutOfBounds"
proof (induction area color_p y x rule: flush_row.induct)
  case (1 area color_p y x)
  show ?case
  proof (cases "x \<le> sint (x2 area)")
    case True
    from "1.prems" consider "read_pixel area color_p x y = Inl e"
      | c where "read_pixel area color_p x y = Inr c" "flush_row area color_p y (x + 1) = Inl e"
      by (subst (asm) flush_row.simps) (auto simp: True split: sum.splits)
    then show ?thesis
    proof cases
      case 1
      then show ?thesis by (rule read_pixel_err)
    next
      case 2
      then show ?thesis using "1.IH"[OF True] by blast
    qed
  next
    case False
    with "1.prems" show ?thesis by (subst (asm) flush_row.simps) simp
  qed
qed

lemma flush_rows_err:
  "flush_rows area color_p y = Inl e \<Longrightarrow> e = IntOverflow \<or> e = OutOfBounds"
proof (induction area color_p y rule: flush_rows.induct)
  case (1 area color_p y)
  show ?case
  proof (cases "y \<le> sint (y2 area)")
    case True
    from "1.prems" consider "flush_row area color_p y (sint (x1 area)) = Inl e"
      | row where "flush_row area color_p y (sint (x1 area)) = Inr row"
          "flush_rows area color_p (y + 1) = Inl e"
      by (subst (asm) flush_rows.simps) (auto simp: True split: sum.splits)
    then show ?thesis
    proof cases
      case 1
      then show ?thesis by (rule flush_row_err)
    next
      case 2
      then show ?thesis using "1.IH"[OF True] by blast
    qed
  next
    case False
    with "1.prems" show ?thesis by (subst (asm) flush_rows.simps) simp
  qed
qed

lemma sdl_display_flush_err:
  "sdl_display_flush area color_p = Inl e \<Longrightarrow> e = IntOverflow \<or> e = OutOfBounds"
  using flush_rows_err[of area color_p "sint (y1 area)" e]
  by (auto simp: sdl_display_flush_def split: sum.splits)

lemma refr_cases:
  "(\<exists>tr. lv_refr rs st = Inr (st\<lparr>calls := calls st @ tr\<rparr>) \<and> count_list tr transition_msg = 0) \<or>
   lv_refr rs st = Inl IntOverflow \<or> lv_refr rs st = Inl OutOfBounds"
proof (induction rs arbitrary: st)
  case Nil
  have "lv_refr [] st = Inr (st\<lparr>calls := calls st @ []\<rparr>)" by simp
  then show ?case by (intro disjI1 exI[of _ "[]"]) simp
next
  case (Cons r rs)
  obtain area color_p where r: "r = (area, color_p)" by (cases r)
  show ?case
  proof (cases "sdl_display_flush area color_p")
    case (Inl e)
    then show ?thesis using sdl_display_flush_err[OF Inl] by (auto simp: r)
  next
    case (Inr tr)
    have n: "count_list tr transition_msg = 0"
      unfolding sdl_display_flush_Inr[OF Inr] using draw_calls_no_msg
      by (simp add: transition_msg_def)
    from Cons.IH[of "st\<lparr>calls := calls st @ tr\<rparr>"] show ?thesis
    proof (elim disjE exE conjE)
      fix tr'
      assume a: "lv_refr rs (st\<lparr>calls := calls st @ tr\<rparr>) =
          Inr (st\<lparr>calls := calls st @ tr, calls := calls (st\<lparr>calls := calls st @ tr\<rparr>) @ tr'\<rparr>)"
        and b: "count_list tr' transition_msg = 0"
      have "lv_refr (r # rs) st = Inr (st\<lparr>calls := calls st @ (tr @ tr')\<rparr>)"
        using a by (simp add: r Inr)
      moreover have "count_list (tr @ tr') transition_msg = 0" using n b by simp
      ultimately show ?thesis by blast
    next
      assume "lv_refr rs (st\<lparr>calls := calls st @ tr\<rparr>) = Inl IntOverflow"
      then show ?thesis by (simp add: r Inr)
    next
      assume "lv_refr rs (st\<lparr>calls := calls st @ tr\<rparr>) = Inl OutOfBounds"
      then show ?thesis by (simp add: r Inr)
    qed
  qed
qed

lemma seq_timer_run_Nil: "seq m (lv_timer_run [] timeinfo) = m"
  by (cases m) simp_all

lemma handler_ok:
  assumes inv: "loop_inv t0 st" and ok: "input_ok inp"
  shows "\<exists>st' h. lv_timer_handler inp st = Inr st' \<and> loop_inv t0 st' \<and>
           calls st' = calls st @ Lv_timer_handler # h \<and> list_all handler_call h \<and>
           switched st' = (if switched st = 0 \<and> t0 + 4000 \<le> now_tick inp then 1 else switched st)"
proof -
  from ok have v: "valid_tm (now_time inp)" and fl: "list_all flush_fits (redraw inp)"
    by (simp_all add: input_ok_def)
  let ?s1 = "emit Lv_timer_handler (st\<lparr>tick := now_tick inp\<rparr>)"
  have c1: "calls ?s1 = calls st @ [Lv_timer_handler]" and t1: "tick ?s1 = now_tick inp"
    by (simp_all add: emit_def)
  have sw1: "switched ?s1 = switched st" by (simp add: switched_def emit_def transition_msg_def)
  have i1: "loop_inv t0 ?s1"
    unfolding emit_def
    using loop_inv_calls[OF loop_inv_tick[OF inv, of "now_tick inp"], of "calls st @ [Lv_timer_handler]"]
    by (simp add: switched_def transition_msg_def)
  have len: "length (timers ?s1) = 2" using i1 by (simp add: loop_inv_def)
  have "\<exists>s2 m. lv_timer_exec 0 (now_time inp) ?s1 = Inr s2 \<and> loop_inv t0 s2 \<and>
          calls s2 = calls ?s1 @ m \<and> tick s2 = tick ?s1 \<and>
          m = (if switched st = 0 \<and> t0 + 4000 \<le> now_tick inp then [transition_msg] else [])"
  proof (cases "switched st = 0 \<and> t0 + 4000 \<le> now_tick inp")
    case True
    then show ?thesis using exec_splash_due[OF i1, of "now_time inp"] sw1 t1 by auto
  next
    case False
    then show ?thesis using exec_splash_idle[OF i1, of "now_time inp"] sw1 t1 i1 by auto
  qed
  then obtain s2 m where e0: "lv_timer_exec 0 (now_time inp) ?s1 = Inr s2" and i2: "loop_inv t0 s2"
    and c2: "calls s2 = calls ?s1 @ m"
    and m: "m = (if switched st = 0 \<and> t0 + 4000 \<le> now_tick inp then [transition_msg] else [])"
    by blast
  from exec_clock[OF i2 v] obtain s3 where e1: "lv_timer_exec (Suc 0) (now_time inp) s2 = Inr s3"
    and i3: "loop_inv t0 s3" and c3: "calls s3 = calls s2"
    by blast
  from refr_ok[OF fl, of s3] obtain tr where
    rf: "lv_refr (redraw inp) s3 = Inr (s3\<lparr>calls := calls s3 @ tr\<rparr>)"
    and hc: "list_all handler_call tr" and nm: "count_list tr transition_msg = 0"
    by blast
  have up: "[0..<length (timers ?s1)] = [0, 1]" by (simp add: len upt_rec)
  have run: "lv_timer_handler inp st = Inr (s3\<lparr>calls := calls s3 @ tr\<rparr>)"
    unfolding lv_timer_handler_def Let_def up by (simp add: e0 e1 rf)
  have i4: "loop_inv t0 (s3\<lparr>calls := calls s3 @ tr\<rparr>)"
    by (rule loop_inv_calls[OF i3]) (simp add: nm switched_def)
  have c4: "calls (s3\<lparr>calls := calls s3 @ tr\<rparr>) = calls st @ Lv_timer_handler # (m @ tr)"
    by (simp add: c3 c2 c1)
  have h4: "list_all handler_call (m @ tr)"
    using hc by (simp add: m handler_call_def transition_msg_def)
  have s4: "switched (s3\<lparr>calls := calls s3 @ tr\<rparr>) =
      (if switched st = 0 \<and> t0 + 4000 \<le> now_tick inp then 1 else switched st)"
    using nm by (simp add: switched_def c3 c2 c1 m transition_msg_def)
  show ?thesis using run i4 c4 h4 s4 by blast
qed

lemma handler_cases:
  assumes inv: "loop_inv t0 st"
  shows "(\<exists>st'. lv_timer_handler inp st = Inr st' \<and> loop_inv t0 st' \<and>
            switched st \<le> switched st') \<or>
         (\<exists>e. lv_timer_handler inp st = Inl e \<and> e \<noteq> NullHandle \<and> e \<noteq> BadHandle)"
proof -
  let ?s1 = "emit Lv_timer_handler (st\<lparr>tick := now_tick inp\<rparr>)"
  have sw1: "switched ?s1 = switched st" by (simp add: switched_def emit_def transition_msg_def)
  have i1: "loop_inv t0 ?s1"
    unfolding emit_def
    using loop_inv_calls[OF loop_inv_tick[OF inv, of "now_tick inp"], of "calls st @ [Lv_timer_handler]"]
    by (simp add: switched_def transition_msg_def)
  have len: "length (timers ?s1) = 2" using i1 by (simp add: loop_inv_def)
  have up: "[0..<length (timers ?s1)] = [0, 1]" by (simp add: len upt_rec)
  from exec_splash_total[OF i1] obtain s2 where
    e0: "lv_timer_exec 0 (now_time inp) ?s1 = Inr s2" and i2: "loop_inv t0 s2"
    and sw2: "switched st \<le> switched s2"
    unfolding sw1 by blast
  have run: "lv_timer_handler inp st =
      seq (lv_timer_exec (Suc 0) (now_time inp) s2) (lv_refr (redraw inp))"
    unfolding lv_timer_handler_def Let_def up by (simp add: e0 seq_timer_run_Nil)
  from exec_clock_cases[OF i2, of "now_time inp"] show ?thesis
  proof (elim disjE exE conjE)
    fix s3
    assume e1: "lv_timer_exec (Suc 0) (now_time inp) s2 = Inr s3" and i3: "loop_inv t0 s3"
      and sw3: "switched s3 = switched s2"
    from refr_cases[of "redraw inp" s3] show ?thesis
    proof (elim disjE exE conjE)
      fix tr
      assume rf: "lv_refr (redraw inp) s3 = Inr (s3\<lparr>calls := calls s3 @ tr\<rparr>)"
        and nm: "count_list tr transition_msg = 0"
      have "loop_inv t0 (s3\<lparr>calls := calls s3 @ tr\<rparr>)"
        by (rule loop_inv_calls[OF i3]) (simp add: nm switched_def)
      moreover have "switched (s3\<lparr>calls := calls s3 @ tr\<rparr>) = switched s3"
        by (simp add: nm switched_def)
      ultimately show ?thesis using sw2 sw3 by (simp add: run e1 rf)
    next
      assume "lv_refr (redraw inp) s3 = Inl IntOverflow"
      then show ?thesis by (simp add: run e1)
    next
      assume "lv_refr (redraw inp) s3 = Inl OutOfBounds"
      then show ?thesis by (simp add: run e1)
    qed
  next
    assume "lv_timer_exec (Suc 0) (now_time inp) s2 = Inl Truncated"
    then show ?thesis by (simp add: run)
  qed
qed

subsection \<open>Iterations of the loop\<close>

text \<open>
  With well-formed inputs every iteration returns and the run is described exactly
  (\<open>main_loop_run\<close>). Without any assumption on the inputs, a run from a state that
  satisfies the invariant either goes on, with the invariant, or stops in undefined
  behaviour that is not a null or stale handle: a string that did not fit, or a read
  outside a pixel buffer (\<open>main_loop_cases\<close>).
\<close>

lemma poll_events_eq:
  "poll_events es q st =
     (q \<or> SDL_QUIT \<in> set es,
      st\<lparr>calls := calls st @ map (\<lambda>e. SDL_PollEvent (Some e)) es @ [SDL_PollEvent None]\<rparr>)"
  by (induction es arbitrary: q st) (auto simp: emit_def)

lemma poll_calls_no_msg:
  "count_list (map (\<lambda>e. SDL_PollEvent (Some e)) es) transition_msg = 0"
  by (induction es) (simp_all add: transition_msg_def)

lemma loop_body_ok:
  assumes inv: "loop_inv t0 st" and ok: "input_ok inp"
  shows "\<exists>st' h. loop_body inp st = Inr (has_quit inp, st') \<and> loop_inv t0 st' \<and>
           calls st' = calls st @ iteration_calls inp h \<and> list_all handler_call h \<and>
           switched st' = (if switched st = 0 \<and> t0 + 4000 \<le> now_tick inp then 1 else switched st)"
proof -
  let ?pre = "map (\<lambda>e. SDL_PollEvent (Some e)) (polled inp) @
              [SDL_PollEvent None, SDL_SetRenderDrawColor 0 0 0 255, SDL_RenderClear]"
  let ?s1 = "st\<lparr>calls := calls st @ ?pre\<rparr>"
  have ne: "SDL_RenderClear \<noteq> transition_msg" "SDL_SetRenderDrawColor 0 0 0 255 \<noteq> transition_msg"
    "SDL_PollEvent None \<noteq> transition_msg"
    by (simp_all add: transition_msg_def)
  have i1: "loop_inv t0 ?s1"
    by (rule loop_inv_calls[OF inv]) (simp add: switched_def poll_calls_no_msg ne)
  have sw1: "switched ?s1 = switched st" by (simp add: switched_def poll_calls_no_msg ne)
  from handler_ok[OF i1 ok] obtain s2 h where
    hd: "lv_timer_handler inp ?s1 = Inr s2" and i2: "loop_inv t0 s2"
    and c2: "calls s2 = calls ?s1 @ Lv_timer_handler # h" and hc: "list_all handler_call h"
    and sw2: "switched s2 = (if switched st = 0 \<and> t0 + 4000 \<le> now_tick inp then 1 else switched st)"
    unfolding sw1 by blast
  let ?s3 = "emit (SDL_Delay 5) (emit SDL_RenderPresent s2)"
  have e3: "?s3 = s2\<lparr>calls := calls s2 @ [SDL_RenderPresent, SDL_Delay 5]\<rparr>" by (simp add: emit_def)
  have body: "loop_body inp st = Inr (has_quit inp, ?s3)"
    by (simp add: loop_body_def poll_events_eq emit_def has_quit_def hd)
  have i3: "loop_inv t0 ?s3"
    unfolding e3 by (rule loop_inv_calls[OF i2]) (simp add: switched_def transition_msg_def)
  have c3: "calls ?s3 = calls st @ iteration_calls inp h"
    by (simp add: e3 c2 iteration_calls_def)
  have sw3: "switched ?s3 = switched s2" by (simp add: e3 switched_def transition_msg_def)
  show ?thesis using body i3 c3 hc sw3 sw2 by metis
qed

lemma loop_body_cases:
  assumes inv: "loop_inv t0 st"
  shows "(\<exists>st'. loop_body inp st = Inr (has_quit inp, st') \<and> loop_inv t0 st' \<and>
            switched st \<le> switched st') \<or>
         (\<exists>e. loop_body inp st = Inl e \<and> e \<noteq> NullHandle \<and> e \<noteq> BadHandle)"
proof -
  let ?pre = "map (\<lambda>e. SDL_PollEvent (Some e)) (polled inp) @
              [SDL_PollEvent None, SDL_SetRenderDrawColor 0 0 0 255, SDL_RenderClear]"
  let ?s1 = "st\<lparr>calls := calls st @ ?pre\<rparr>"
  have ne: "SDL_RenderClear \<noteq> transition_msg" "SDL_SetRenderDrawColor 0 0 0 255 \<noteq> transition_msg"
    "SDL_PollEvent None \<noteq> transition_msg"
    by (simp_all add: transition_msg_def)
  have i1: "loop_inv t0 ?s1"
    by (rule loop_inv_calls[OF inv]) (simp add: switched_def poll_calls_no_msg ne)
  have sw1: "switched ?s1 = switched st" by (simp add: switched_def poll_calls_no_msg ne)
  have body: "loop_body inp st =
      seq (lv_timer_handler inp ?s1)
        (\<lambda>s. Inr (has_quit inp, emit (SDL_Delay 5) (emit SDL_RenderPresent s)))"
    by (simp add: loop_body_def poll_events_eq emit_def has_quit_def)
  from handler_cases[OF i1, of inp] show ?thesis
  proof (elim disjE exE conjE)
    fix s2
    assume hd: "lv_timer_handler inp ?s1 = Inr s2" and i2: "loop_inv t0 s2"
      and sw2: "switched ?s1 \<le> switched s2"
    have "loop_inv t0 (emit (SDL_Delay 5) (emit SDL_RenderPresent s2))"
      unfolding emit_def
      using loop_inv_calls[OF i2, of "calls s2 @ [SDL_RenderPresent, SDL_Delay 5]"]
      by (simp add: switched_def transition_msg_def)
    moreover have "switched (emit (SDL_Delay 5) (emit SDL_RenderPresent s2)) = switched s2"
      by (simp add: emit_def switched_def transition_msg_def)
    ultimately show ?thesis using sw2 sw1 by (simp add: body hd)
  next
    fix e
    assume "lv_timer_handler inp ?s1 = Inl e" "e \<noteq> NullHandle" "e \<noteq> BadHandle"
    then show ?thesis by (simp add: body)
  qed
qed

lemma main_loop_run:
  assumes "loop_inv t0 st" "list_all input_ok inputs"
  shows "\<exists>st' hs. main_loop inputs st = Inr (quit_seen inputs, st') \<and> loop_inv t0 st' \<and>
           length hs = length (executed inputs) \<and>
           calls st' = calls st @ concat (map2 iteration_calls (executed inputs) hs) \<and>
           list_all (list_all handler_call) hs \<and>
           switched st' =
             (if switched st = 0 \<and> list_ex (\<lambda>inp. t0 + 4000 \<le> now_tick inp) (executed inputs)
              then 1 else switched st)"
  using assms
proof (induction inputs arbitrary: st)
  case Nil
  have "main_loop [] st = Inr (quit_seen [], st)" by (simp add: quit_seen_def)
  then show ?case using Nil.prems(1) by (intro exI[of _ st] exI[of _ "[]"]) simp
next
  case (Cons inp rest)
  from Cons.prems have ok: "input_ok inp" and oks: "list_all input_ok rest" by simp_all
  from loop_body_ok[OF Cons.prems(1) ok] obtain s1 h where
    b: "loop_body inp st = Inr (has_quit inp, s1)" and i1: "loop_inv t0 s1"
    and c1: "calls s1 = calls st @ iteration_calls inp h" and hc: "list_all handler_call h"
    and sw1: "switched s1 = (if switched st = 0 \<and> t0 + 4000 \<le> now_tick inp then 1 else switched st)"
    by blast
  show ?case
  proof (cases "has_quit inp")
    case True
    have "main_loop (inp # rest) st = Inr (quit_seen (inp # rest), s1)"
      by (simp add: b True quit_seen_def)
    then show ?thesis using i1 c1 hc sw1 True
      by (intro exI[of _ s1] exI[of _ "[h]"]) simp
  next
    case False
    from Cons.IH[OF i1 oks] obtain s2 hs where
      r: "main_loop rest s1 = Inr (quit_seen rest, s2)" and i2: "loop_inv t0 s2"
      and l2: "length hs = length (executed rest)"
      and c2: "calls s2 = calls s1 @ concat (map2 iteration_calls (executed rest) hs)"
      and h2: "list_all (list_all handler_call) hs"
      and sw2: "switched s2 =
             (if switched s1 = 0 \<and> list_ex (\<lambda>inp. t0 + 4000 \<le> now_tick inp) (executed rest)
              then 1 else switched s1)"
      by blast
    have "main_loop (inp # rest) st = Inr (quit_seen (inp # rest), s2)"
      by (simp add: b False r quit_seen_def)
    moreover have "switched s2 =
             (if switched st = 0 \<and> list_ex (\<lambda>inp. t0 + 4000 \<le> now_tick inp) (executed (inp # rest))
              then 1 else switched st)"
      using sw1 sw2 False by auto
    ultimately show ?thesis using i2 l2 c2 h2 hc c1 False
      by (intro exI[of _ s2] exI[of _ "h # hs"]) simp
  qed
qed

lemma main_loop_cases:
  assumes "loop_inv t0 st"
  shows "(\<exists>q st'. main_loop inputs st = Inr (q, st') \<and> loop_inv t0 st' \<and>
            switched st \<le> switched st') \<or>
         (\<exists>e. main_loop inputs st = Inl e \<and> e \<noteq> NullHandle \<and> e \<noteq> BadHandle)"
  using assms
proof (induction inputs arbitrary: st)
  case Nil
  then show ?case by auto
next
  case (Cons inp rest)
  from loop_body_cases[OF Cons.prems, of inp] show ?case
  proof (elim disjE exE conjE)
    fix s1
    assume b: "loop_body inp st = Inr (has_quit inp, s1)" and i1: "loop_inv t0 s1"
      and sw1: "switched st \<le> switched s1"
    show ?thesis
    proof (cases "has_quit inp")
      case True
      then show ?thesis using b i1 sw1 by auto
    next
      case False
      then have "main_loop (inp # rest) st = main_loop rest s1" using b by simp
      then show ?thesis using Cons.IH[OF i1] sw1 by auto
    qed
  next
    fix e
    assume "loop_body inp st = Inl e" "e \<noteq> NullHandle" "e \<noteq> BadHandle"
    then show ?thesis by simp
  qed
qed

lemma main_loop_append:
  "main_loop xs st = Inr (False, st') \<Longrightarrow> main_loop (xs @ ys) st = main_loop ys st'"
proof (induction xs arbitrary: st)
  case Nil
  then show ?case by simp
next
  case (Cons inp rest)
  from Cons.prems obtain q s1 where b: "loop_body inp st = Inr (q, s1)"
    by (cases "loop_body inp st") auto
  from Cons.prems b have q: "\<not> q" and r: "main_loop rest s1 = Inr (False, st')"
    by (auto split: if_splits)
  show ?case using Cons.IH[OF r] b q by simp
qed

section \<open>Runs of the program\<close>

lemma main_booted:
  assumes "env_ok env"
  shows "main env inputs =
     (case seq (startup env (platform_up env)) (main_loop inputs) of
        Inl e \<Rightarrow> Crashed e
      | Inr (quit, st) \<Rightarrow> if quit then Exited 0 (cleanup st) else Running st)"
  using assms
  by (auto simp: main_def env_ok_def platform_up_def Let_def emit_def)

lemma switched_cleanup: "switched (cleanup st) = switched st"
  by (simp add: cleanup_def emit_def switched_def transition_msg_def)

lemma cleanup_calls:
  "calls (cleanup st) =
     calls st @ [SDL_DestroyRenderer, SDL_DestroyWindow, SDL_Quit, Printf ''Application closed.\<newline>'']"
  by (simp add: cleanup_def emit_def)

lemma executed_quit:
  "(quit_seen inputs \<longrightarrow> executed inputs \<noteq> [] \<and> has_quit (last (executed inputs))) \<and>
   list_all (\<lambda>inp. \<not> has_quit inp) (butlast (executed inputs)) \<and>
   (\<not> quit_seen inputs \<longrightarrow> executed inputs = inputs)"
  by (induction inputs) (auto simp: quit_seen_def)

lemma run_ok:
  assumes e: "env_ok env" and i: "list_all input_ok inputs"
  obtains st0 st hs where
    "startup env (platform_up env) = Inr st0"
    "\<exists>clock date. st0 = booted env clock date (platform_up env)"
    "loop_inv (boot_tick env) st0" "switched st0 = 0"
    "main_loop inputs st0 = Inr (quit_seen inputs, st)"
    "loop_inv (boot_tick env) st"
    "length hs = length (executed inputs)"
    "calls st = calls st0 @ concat (map2 iteration_calls (executed inputs) hs)"
    "list_all (list_all handler_call) hs"
    "switched st =
       (if list_ex (\<lambda>inp. boot_tick env + 4000 \<le> now_tick inp) (executed inputs) then 1 else 0)"
    "main env inputs = (if quit_seen inputs then Exited 0 (cleanup st) else Running st)"
proof -
  from e have v: "valid_tm (boot_time env)" by (simp add: env_ok_def)
  obtain clock where ck: "strftime 32 ''%H:%M:%S'' (boot_time env) = Some clock"
    using strftime_clock[OF v] by simp
  obtain date where dt: "strftime 64 ''%a, %b %d %Y'' (boot_time env) = Some date"
    using strftime_date[OF v] by simp
  let ?st0 = "booted env clock date (platform_up env)"
  have pe: "objs (platform_up env) = []" "timers (platform_up env) = []"
    by (simp_all add: platform_up_def emit_def banner_def app0_def)
  have s: "startup env (platform_up env) = Inr ?st0"
    by (rule startup_ok[OF pe ck dt])
  have i0: "loop_inv (boot_tick env) ?st0" by (rule booted_inv)
  have sw0: "switched ?st0 = 0"
    by (simp add: booted_def switched_def transition_msg_def platform_up_def emit_def banner_def app0_def)
  from main_loop_run[OF i0 i] obtain st hs where
    r: "main_loop inputs ?st0 = Inr (quit_seen inputs, st)" and i1: "loop_inv (boot_tick env) st"
    and l: "length hs = length (executed inputs)"
    and c: "calls st = calls ?st0 @ concat (map2 iteration_calls (executed inputs) hs)"
    and h: "list_all (list_all handler_call) hs"
    and sw: "switched st =
             (if switched ?st0 = 0 \<and> list_ex (\<lambda>inp. boot_tick env + 4000 \<le> now_tick inp) (executed inputs)
              then 1 else switched ?st0)"
    by blast
  have m: "main env inputs = (if quit_seen inputs then Exited 0 (cleanup st) else Running st)"
    by (simp add: main_booted[OF e] s r)
  have sw': "switched st =
       (if list_ex (\<lambda>inp. boot_tick env + 4000 \<le> now_tick inp) (executed inputs) then 1 else 0)"
    using sw sw0 by simp
  show ?thesis
    by (rule that[OF s _ i0 sw0 r i1 l c h sw' m]) blast
qed

subsection \<open>The sample runs\<close>

lemma sample_ok_time: "valid_tm sample_time"
  by (simp add: sample_time_def valid_tm_def INT_MIN_def INT_MAX_def)

lemma sample_ok: "env_ok sample_env" "list_all input_ok sample_inputs" "list_all input_ok early_quit"
  by (simp_all add: env_ok_def sample_env_def sample_time_def valid_tm_def INT_MIN_def INT_MAX_def
      sample_inputs_def early_quit_def input_ok_def flush_fits_def area_w_def area_h_def)

lemma sample_facts:
  "quit_seen sample_inputs" "quit_seen early_quit"
  "executed sample_inputs = take 2 sample_inputs" "executed early_quit = early_quit"
  "list_ex (\<lambda>inp. boot_tick sample_env + 4000 \<le> now_tick inp) (executed sample_inputs)"
  "\<not> list_ex (\<lambda>inp. boot_tick sample_env + 4000 \<le> now_tick inp) (executed early_quit)"
  by (simp_all add: quit_seen_def has_quit_def sample_inputs_def early_quit_def sample_env_def SDL_QUIT_def)

section \<open>The claims about runs\<close>

text \<open>
  Claim C1. Once startup has completed, the Loading Screen is visible and the Clock
  Screen is hidden. Whatever inputs the loop then receives, in every state it reaches
  between two iterations exactly one of the two screens is visible: the Loading Screen as
  long as the transition callback has not run, the Clock Screen once it has. That is
  permanent: if the transition has run in the state reached after some iterations, the
  Clock Screen alone is visible in every state reached after further iterations. With
  well-formed inputs the loop does reach a state for every list of inputs. The callback
  itself makes both changes in one step: from any state with two usable, different screen
  handles it returns a state with the Loading Screen hidden and the Clock Screen visible.
\<close>

theorem exclusive_visibility:
  assumes "startup env (platform_up env) = Inr st0"
  shows "visible (loading_screen st0) st0 \<and> \<not> visible (time_screen st0) st0 \<and>
         (\<forall>q st. main_loop inputs st0 = Inr (q, st) \<longrightarrow>
            (if switched st = 0
             then visible (loading_screen st) st \<and> \<not> visible (time_screen st) st
             else \<not> visible (loading_screen st) st \<and> visible (time_screen st) st) \<and>
            visible (loading_screen st) st \<noteq> visible (time_screen st) st) \<and>
         (\<forall>st more q' st'. main_loop inputs st0 = Inr (False, st) \<and> switched st \<noteq> 0 \<and>
            main_loop (inputs @ more) st0 = Inr (q', st') \<longrightarrow>
            \<not> visible (loading_screen st') st' \<and> visible (time_screen st') st') \<and>
         (list_all input_ok inputs \<longrightarrow> (\<exists>st. main_loop inputs st0 = Inr (quit_seen inputs, st))) \<and>
         (\<forall>s s'. ready s \<and> loading_screen s \<noteq> time_screen s \<and> loading_timer_cb s = Inr s' \<longrightarrow>
            \<not> visible (loading_screen s') s' \<and> visible (time_screen s') s' \<and>
            switched s' = Suc (switched s))"
proof -
  have pe: "objs (platform_up env) = []" "timers (platform_up env) = []"
    by (simp_all add: platform_up_def emit_def banner_def app0_def)
  from startup_Inr[OF assms pe] obtain clock date where
    b: "st0 = booted env clock date (platform_up env)"
    by blast
  have i0: "loop_inv (boot_tick env) st0" unfolding b by (rule booted_inv)
  have sw0: "switched st0 = 0"
    by (simp add: b booted_def switched_def transition_msg_def platform_up_def emit_def banner_def
        app0_def)
  have v0: "visible (loading_screen st0) st0 \<and> \<not> visible (time_screen st0) st0"
    using loop_inv_visible(1)[OF i0] sw0 by simp
  have reach: "(if switched st = 0
             then visible (loading_screen st) st \<and> \<not> visible (time_screen st) st
             else \<not> visible (loading_screen st) st \<and> visible (time_screen st) st) \<and>
            visible (loading_screen st) st \<noteq> visible (time_screen st) st"
    if "main_loop inputs st0 = Inr (q, st)" for q st
  proof -
    from main_loop_cases[OF i0, of inputs] that have "loop_inv (boot_tick env) st" by auto
    then show ?thesis using loop_inv_visible by blast
  qed
  have perm: "\<not> visible (loading_screen st') st' \<and> visible (time_screen st') st'"
    if m: "main_loop inputs st0 = Inr (False, st)" and sw: "switched st \<noteq> 0"
      and m': "main_loop (inputs @ more) st0 = Inr (q', st')" for st more q' st'
  proof -
    from main_loop_cases[OF i0, of inputs] m have i1: "loop_inv (boot_tick env) st" by auto
    from main_loop_append[OF m, of more] m' have r: "main_loop more st = Inr (q', st')" by simp
    from main_loop_cases[OF i1, of more] r have i2: "loop_inv (boot_tick env) st'"
      and le: "switched st \<le> switched st'"
      by auto
    from le sw have "switched st' \<noteq> 0" by simp
    then show ?thesis using loop_inv_visible(1)[OF i2] by simp
  qed
  have total: "\<exists>st. main_loop inputs st0 = Inr (quit_seen inputs, st)" if "list_all input_ok inputs"
    using main_loop_run[OF i0 that] by blast
  show ?thesis
    using v0 reach perm total loading_timer_cb_atomic by blast
qed

theorem exclusive_visibility_witness:
  "\<exists>st0 st.
     startup sample_env (platform_up sample_env) = Inr st0 \<and>
     visible (loading_screen st0) st0 \<and> \<not> visible (time_screen st0) st0 \<and>
     list_all input_ok sample_inputs \<and>
     main_loop sample_inputs st0 = Inr (True, st) \<and>
     visible (loading_screen st) st \<noteq> visible (time_screen st) st"
proof -
  from sample_ok(1,2) obtain st0 st where
    s: "startup sample_env (platform_up sample_env) = Inr st0"
    and m: "main_loop sample_inputs st0 = Inr (quit_seen sample_inputs, st)"
    by (rule run_ok)
  from m have m': "main_loop sample_inputs st0 = Inr (True, st)" using sample_facts(1) by simp
  from exclusive_visibility[OF s, of sample_inputs] m'
  have "visible (loading_screen st0) st0 \<and> \<not> visible (time_screen st0) st0"
    "visible (loading_screen st) st \<noteq> visible (time_screen st) st"
    by blast+
  then show ?thesis using s m' sample_ok(2) by blast
qed

text \<open>
  Claim C2, as stated, fails: a process need not live for 4000 ms. In the run
  \<open>early_quit\<close> the window is closed in the first iteration, at tick 20 of a splash
  timer started at tick 10; \<open>main\<close> returns 0 and the transition has fired zero times,
  not once.
\<close>

theorem splash_not_fired_when_closed_early:
  "exit_status (main sample_env early_quit) = Some 0 \<and>
   map_option switched (exit_state (main sample_env early_quit)) = Some 0"
proof -
  from sample_ok(1,3) obtain st where
    sw: "switched st =
       (if list_ex (\<lambda>inp. boot_tick sample_env + 4000 \<le> now_tick inp) (executed early_quit)
        then 1 else 0)"
    and m: "main sample_env early_quit =
       (if quit_seen early_quit then Exited 0 (cleanup st) else Running st)"
    by (rule run_ok)
  from m have "main sample_env early_quit = Exited 0 (cleanup st)" using sample_facts(2) by simp
  moreover from sw have "switched (cleanup st) = 0" using sample_facts(6) by (simp add: switched_cleanup)
  ultimately show ?thesis by (simp add: exit_status_def exit_state_def)
qed

text \<open>
  Claim C2, amended. The splash timer is created in slot 0 with period 4000 and repeat
  count 1, started at the tick of startup. Over the whole run, cleanup included, the
  transition fires once if some executed iteration runs the toolkit's handler at a tick
  at least 4000 after that start, and not at all otherwise; so it fires at most once,
  never before 4000 ms have elapsed and never again. The statement holds for every list
  of inputs, hence for every prefix of a run: the firing happens in the first iteration
  that is due. While it has not fired the timer is pending as created, and once it has
  fired the slot is empty: the timer is deleted.
\<close>

theorem splash_fires_at_most_once:
  assumes "env_ok env" "list_all input_ok inputs"
  shows "\<exists>st0 st.
           startup env (platform_up env) = Inr st0 \<and>
           loading_timer st0 = Some 0 \<and>
           timers st0 ! 0 = Some \<lparr>timer_cb = Loading_timer_cb, period = 4000,
                                   last_run = boot_tick env, repeat_count = 1\<rparr> \<and>
           switched st0 = 0 \<and>
           main_loop inputs st0 = Inr (quit_seen inputs, st) \<and>
           main env inputs = (if quit_seen inputs then Exited 0 (cleanup st) else Running st) \<and>
           switched (cleanup st) = switched st \<and>
           switched st =
             (if list_ex (\<lambda>inp. boot_tick env + 4000 \<le> now_tick inp) (executed inputs)
              then 1 else 0) \<and>
           timers st ! 0 =
             (if switched st = 0
              then Some \<lparr>timer_cb = Loading_timer_cb, period = 4000,
                         last_run = boot_tick env, repeat_count = 1\<rparr>
              else None)"
proof -
  from assms obtain st0 st where
    s: "startup env (platform_up env) = Inr st0"
    and b: "\<exists>clock date. st0 = booted env clock date (platform_up env)"
    and sw0: "switched st0 = 0" and r: "main_loop inputs st0 = Inr (quit_seen inputs, st)"
    and i1: "loop_inv (boot_tick env) st"
    and sw: "switched st =
       (if list_ex (\<lambda>inp. boot_tick env + 4000 \<le> now_tick inp) (executed inputs) then 1 else 0)"
    and m: "main env inputs = (if quit_seen inputs then Exited 0 (cleanup st) else Running st)"
    by (rule run_ok)
  from b have t0: "loading_timer st0 = Some 0"
    "timers st0 ! 0 = Some \<lparr>timer_cb = Loading_timer_cb, period = 4000,
                                   last_run = boot_tick env, repeat_count = 1\<rparr>"
    using booted_splash by auto
  show ?thesis
    using s t0 sw0 r m switched_cleanup[of st] sw loop_inv_splash[OF i1] by blast
qed

theorem splash_fires_at_most_once_witness:
  "env_ok sample_env \<and> list_all input_ok sample_inputs \<and>
   (\<exists>st. main sample_env sample_inputs = Exited 0 (cleanup st) \<and> switched (cleanup st) = 1 \<and>
         timers st ! 0 = None)"
proof -
  from splash_fires_at_most_once[OF sample_ok(1,2)] obtain st where
    "main sample_env sample_inputs =
       (if quit_seen sample_inputs then Exited 0 (cleanup st) else Running st)"
    "switched (cleanup st) = switched st"
    "switched st =
       (if list_ex (\<lambda>inp. boot_tick sample_env + 4000 \<le> now_tick inp) (executed sample_inputs)
        then 1 else 0)"
    "timers st ! 0 =
       (if switched st = 0
        then Some \<lparr>timer_cb = Loading_timer_cb, period = 4000,
                   last_run = boot_tick sample_env, repeat_count = 1\<rparr>
        else None)"
    by blast
  then show ?thesis using sample_ok(1,2) sample_facts(1,5) by auto
qed

subsection \<open>What the refresh leaves in the two labels\<close>







text \<open>
  Claim C8. In every run that starts successfully and receives well-formed inputs, the
  calls made after startup are, iteration by iteration, for the executed iterations: one
  \<^verbatim>\<open>SDL_PollEvent\<close> per pending event and the one that returns 0, then the draw
  colour set to opaque black and \<^verbatim>\<open>SDL_RenderClear\<close>, then the toolkit's handler with
  the calls made inside it (only the transition message and drawing calls of the flush
  callback), then \<^verbatim>\<open>SDL_RenderPresent\<close>, then \<^verbatim>\<open>SDL_Delay(5)\<close>. The executed
  iterations are those up to and including the first that polls the close event: none
  before the last polls it, and if none does, every iteration is executed and the loop is
  still running. When the loop ends, \<open>main\<close> destroys the renderer and the window,
  calls \<^verbatim>\<open>SDL_Quit\<close>, prints its last line and returns 0.
\<close>

theorem event_loop_order_and_exit:
  assumes "env_ok env" "list_all input_ok inputs"
  shows "\<exists>st0 st hs.
           startup env (platform_up env) = Inr st0 \<and>
           main_loop inputs st0 = Inr (quit_seen inputs, st) \<and>
           length hs = length (executed inputs) \<and>
           list_all (list_all handler_call) hs \<and>
           calls st = calls st0 @ concat (map2 iteration_calls (executed inputs) hs) \<and>
           main env inputs = (if quit_seen inputs then Exited 0 (cleanup st) else Running st) \<and>
           calls (cleanup st) =
             calls st @ [SDL_DestroyRenderer, SDL_DestroyWindow, SDL_Quit,
                         Printf ''Application closed.\<newline>''] \<and>
           (quit_seen inputs \<longrightarrow> executed inputs \<noteq> [] \<and> has_quit (last (executed inputs))) \<and>
           list_all (\<lambda>inp. \<not> has_quit inp) (butlast (executed inputs)) \<and>
           (\<not> quit_seen inputs \<longrightarrow> executed inputs = inputs)"
proof -
  from assms obtain st0 st hs where
    "startup env (platform_up env) = Inr st0"
    "main_loop inputs st0 = Inr (quit_seen inputs, st)"
    "length hs = length (executed inputs)"
    "calls st = calls st0 @ concat (map2 iteration_calls (executed inputs) hs)"
    "list_all (list_all handler_call) hs"
    "main env inputs = (if quit_seen inputs then Exited 0 (cleanup st) else Running st)"
    by (rule run_ok)
  then show ?thesis using cleanup_calls[of st] executed_quit[of inputs] by blast
qed

theorem event_loop_order_and_exit_witness:
  "env_ok sample_env \<and> list_all input_ok sample_inputs \<and>
   (\<exists>st0 st hs.
      startup sample_env (platform_up sample_env) = Inr st0 \<and>
      length hs = 2 \<and>
      calls st = calls st0 @ concat (map2 iteration_calls (take 2 sample_inputs) hs) \<and>
      main sample_env sample_inputs = Exited 0 (cleanup st) \<and>
      calls (cleanup st) =
        calls st @ [SDL_DestroyRenderer, SDL_DestroyWindow, SDL_Quit,
                    Printf ''Application closed.\<newline>''])"
proof -
  from event_loop_order_and_exit[OF sample_ok(1,2)] obtain st0 st hs where
    f1: "startup sample_env (platform_up sample_env) = Inr st0"
    and f2: "length hs = length (executed sample_inputs)"
    and f3: "calls st = calls st0 @ concat (map2 iteration_calls (executed sample_inputs) hs)"
    and f4: "main sample_env sample_inputs =
       (if quit_seen sample_inputs then Exited 0 (cleanup st) else Running st)"
    and f5: "calls (cleanup st) =
        calls st @ [SDL_DestroyRenderer, SDL_DestroyWindow, SDL_Quit,
                    Printf ''Application closed.\<newline>'']"
    by blast
  have l: "length hs = 2" using f2 by (simp add: sample_facts(3)) (simp add: sample_inputs_def)
  have c: "calls st = calls st0 @ concat (map2 iteration_calls (take 2 sample_inputs) hs)"
    using f3 by (simp only: sample_facts(3))
  have m: "main sample_env sample_inputs = Exited 0 (cleanup st)"
    using f4 sample_facts(1) by simp
  show ?thesis using sample_ok(1,2) f1 l c m f5 by blast
qed

text \<open>
  Claim C9. With the Time and Date label handles usable and different, and the local time
  in range, the refresh returns a state that differs from the one it was given in nothing
  but label texts (\<open>refreshed\<close>): the Time label now shows the clock string and the Date
  label the date string, every other object of the pool is the same object, every object
  keeps its flags, styles and every field other than its text, and the globals, the timers
  and the calls made are unchanged; so is the visibility of every handle. A second
  refresh at the same time returns the same state again.
\<close>

theorem update_time_display_frame:
  assumes v: "valid_tm t"
    and h: "time_label st = Some tlab" "date_label st = Some dlab"
    and b: "tlab < length (objs st)" "dlab < length (objs st)" and ne: "tlab \<noteq> dlab"
  shows "\<exists>st'. update_time_display t st = Inr st' \<and> refreshed st st' \<and>
           label_text (objs st' ! tlab) = strftime 32 ''%H:%M:%S'' t \<and>
           label_text (objs st' ! dlab) = strftime 64 ''%a, %b %d %Y'' t \<and>
           (\<forall>i < length (objs st). i \<noteq> tlab \<and> i \<noteq> dlab \<longrightarrow> objs st' ! i = objs st ! i) \<and>
           timers st' = timers st \<and> calls st' = calls st \<and>
           (\<forall>h. visible h st' = visible h st) \<and>
           update_time_display t st' = Inr st'"
proof -
  from update_time_display_ok[OF v h b] obtain clock date where
    c: "strftime 32 ''%H:%M:%S'' t = Some clock" and d: "strftime 64 ''%a, %b %d %Y'' t = Some date"
    and u: "update_time_display t st =
             Inr (st\<lparr>objs := ((objs st)[tlab := (objs st ! tlab)\<lparr>label_text := Some clock\<rparr>])
                    [dlab := (((objs st)[tlab := (objs st ! tlab)\<lparr>label_text := Some clock\<rparr>]) ! dlab)
                             \<lparr>label_text := Some date\<rparr>]\<rparr>)"
    by blast
  let ?os = "((objs st)[tlab := (objs st ! tlab)\<lparr>label_text := Some clock\<rparr>])
                    [dlab := (objs st ! dlab)\<lparr>label_text := Some date\<rparr>]"
  let ?st' = "st\<lparr>objs := ?os\<rparr>"
  have u': "update_time_display t st = Inr ?st'" using u ne by simp
  from update_time_display_refreshed[OF v h b] u' have r: "refreshed st ?st'" by simp
  have h': "time_label ?st' = Some tlab" "date_label ?st' = Some dlab" using h by simp_all
  have b': "tlab < length (objs ?st')" "dlab < length (objs ?st')" using b by simp_all
  from update_time_display_ok[OF v h' b'] c d have
    "update_time_display t ?st' =
       Inr (?st'\<lparr>objs := ((objs ?st')[tlab := (objs ?st' ! tlab)\<lparr>label_text := Some clock\<rparr>])
                    [dlab := (((objs ?st')[tlab := (objs ?st' ! tlab)\<lparr>label_text := Some clock\<rparr>]) ! dlab)
                             \<lparr>label_text := Some date\<rparr>]\<rparr>)"
    by simp
  also have "\<dots> = Inr ?st'" using b ne by (simp add: list_update_swap)
  finally have idem: "update_time_display t ?st' = Inr ?st'" .
  have t1: "label_text (objs ?st' ! tlab) = strftime 32 ''%H:%M:%S'' t" using b ne by (simp add: c)
  have t2: "label_text (objs ?st' ! dlab) = strftime 64 ''%a, %b %d %Y'' t" using b by (simp add: d)
  have oth: "\<forall>i < length (objs st). i \<noteq> tlab \<and> i \<noteq> dlab \<longrightarrow> objs ?st' ! i = objs st ! i" by simp
  note fr = refreshed_frame[OF r]
  show ?thesis
    using u' r t1 t2 oth fr(1) fr(2) fr(13) idem by blast
qed

theorem update_time_display_frame_witness:
  "valid_tm sample_time \<and>
   (\<exists>st'. update_time_display sample_time
             (app0\<lparr>time_label := Some 0, date_label := Some 1,
                   objs := [new_obj None (Some ''00:00:00''), new_obj None (Some [])]\<rparr>) = Inr st' \<and>
          label_text (objs st' ! 0) = Some ''13:05:07'' \<and>
          label_text (objs st' ! 1) = Some ''Fri, Oct 03 2026'' \<and>
          timers st' = [] \<and> calls st' = [] \<and>
          update_time_display sample_time st' = Inr st')"
proof -
  let ?st = "app0\<lparr>time_label := Some 0, date_label := Some 1,
                   objs := [new_obj None (Some ''00:00:00''), new_obj None (Some [])]\<rparr>"
  have v: "valid_tm sample_time" by (rule sample_ok_time)
  have y: "dec_int (int_wrap 2026) = ''2026''"
    by (simp add: int_wrap_def dec_int_def dec_nat.simps digit_char_def)
  have c: "strftime 32 ''%H:%M:%S'' sample_time = Some ''13:05:07''"
    using strftime_clock[OF v] by (simp add: sample_time_def pad2_def digit_char_def)
  have d: "strftime 64 ''%a, %b %d %Y'' sample_time = Some ''Fri, Oct 03 2026''"
    using strftime_date[OF v]
    by (simp add: sample_time_def pad2_def digit_char_def wday_names_def mon_names_def y)
  have h: "time_label ?st = Some 0" "date_label ?st = Some 1" by simp_all
  have b: "0 < length (objs ?st)" "1 < length (objs ?st)" by simp_all
  from update_time_display_frame[OF v h b] obtain st' where
    "update_time_display sample_time ?st = Inr st'"
    "label_text (objs st' ! 0) = strftime 32 ''%H:%M:%S'' sample_time"
    "label_text (objs st' ! 1) = strftime 64 ''%a, %b %d %Y'' sample_time"
    "timers st' = timers ?st" "calls st' = calls ?st"
    "update_time_display sample_time st' = Inr st'"
    by auto
  then show ?thesis using v by (auto simp: c d app0_def)
qed

text \<open>
  Claim C10. Once startup has completed, the four handles \<^verbatim>\<open>loading_screen\<close>,
  \<^verbatim>\<open>time_screen\<close>, \<^verbatim>\<open>time_label\<close> and \<^verbatim>\<open>date_label\<close> are non-null and name
  objects of the pool. Whatever inputs the loop then receives, it never stops in the
  null-handle branch of a callback, and in every state it reaches the handles are still
  usable: \<^verbatim>\<open>loading_timer_cb\<close> returns normally, and for every time whatsoever
  \<^verbatim>\<open>clock_update_cb\<close> and \<^verbatim>\<open>update_time_display\<close> do not end in the null-handle
  branch.
\<close>

theorem callbacks_never_see_null:
  assumes "startup env (platform_up env) = Inr st0"
  shows "ready st0 \<and> main_loop inputs st0 \<noteq> Inl NullHandle \<and>
         (\<forall>q st. main_loop inputs st0 = Inr (q, st) \<longrightarrow>
            ready st \<and>
            loading_screen st \<noteq> None \<and> time_screen st \<noteq> None \<and> time_label st \<noteq> None \<and>
            date_label st \<noteq> None \<and>
            (\<exists>st'. loading_timer_cb st = Inr st') \<and>
            (\<forall>t. clock_update_cb t st \<noteq> Inl NullHandle \<and>
                 update_time_display t st \<noteq> Inl NullHandle))"
proof -
  have pe: "objs (platform_up env) = []" "timers (platform_up env) = []"
    by (simp_all add: platform_up_def emit_def banner_def app0_def)
  from startup_Inr[OF assms pe] obtain clock date where
    b: "st0 = booted env clock date (platform_up env)"
    by blast
  have i0: "loop_inv (boot_tick env) st0" unfolding b by (rule booted_inv)
  then have r0: "ready st0" by (simp add: loop_inv_def)
  have safe: "main_loop inputs st0 \<noteq> Inl NullHandle"
    using main_loop_cases[OF i0, of inputs] by auto
  have reach: "ready st \<and>
            loading_screen st \<noteq> None \<and> time_screen st \<noteq> None \<and> time_label st \<noteq> None \<and>
            date_label st \<noteq> None \<and>
            (\<exists>st'. loading_timer_cb st = Inr st') \<and>
            (\<forall>t. clock_update_cb t st \<noteq> Inl NullHandle \<and>
                 update_time_display t st \<noteq> Inl NullHandle)"
    if m: "main_loop inputs st0 = Inr (q, st)" for q st
  proof -
    from main_loop_cases[OF i0, of inputs] m have "loop_inv (boot_tick env) st" by auto
    then have r1: "ready st" by (simp add: loop_inv_def)
    show ?thesis
      using r1 ready_handles[OF r1] ready_loading_timer_cb[OF r1] ready_update_time_display[OF r1]
      by (simp add: clock_update_cb_def)
  qed
  show ?thesis using r0 safe reach by blast
qed

theorem callbacks_never_see_null_witness:
  "\<exists>st0 st.
     startup sample_env (platform_up sample_env) = Inr st0 \<and> ready st0 \<and>
     main_loop sample_inputs st0 = Inr (True, st) \<and> ready st \<and>
     loading_screen st \<noteq> None \<and> time_screen st \<noteq> None \<and> time_label st \<noteq> None \<and>
     date_label st \<noteq> None \<and>
     (\<exists>st'. loading_timer_cb st = Inr st') \<and>
     clock_update_cb sample_time st \<noteq> Inl NullHandle"
proof -
  from sample_ok(1,2) obtain st0 st where
    s: "startup sample_env (platform_up sample_env) = Inr st0"
    and m: "main_loop sample_inputs st0 = Inr (quit_seen sample_inputs, st)"
    by (rule run_ok)
  from m have m': "main_loop sample_inputs st0 = Inr (True, st)" using sample_facts(1) by simp
  from callbacks_never_see_null[OF s, of sample_inputs] m'
  have "ready st0" "ready st"
    "loading_screen st \<noteq> None \<and> time_screen st \<noteq> None \<and> time_label st \<noteq> None \<and>
     date_label st \<noteq> None"
    "\<exists>st'. loading_timer_cb st = Inr st'" "clock_update_cb sample_time st \<noteq> Inl NullHandle"
    by blast+
  then show ?thesis using s m' by blast
qed

end
